theory Spec2Isabelle
  imports Main "HOL-Library.Word"
begin

text \<open>
  A shallow embedding of \<open>src/service/live-lottery.service.ts\<close>, the lottery and red-packet
  pipelines of the live service. Every \<open>async\<close> function is a function from the state of the
  process to a result (a value or a thrown exception) and the state after it. The state holds:
  the outbound operations issued so far (the requests to the remote service and the fixed delays),
  the log, and a heap of arrays with the module variable \<open>newFollowUp\<close> that refers into it. The
  remote service is a parameter; its answers may depend on the history of operations.
\<close>

section \<open>Data model of \<open>live-lottery.service.ts\<close>\<close>

text \<open>
  A JavaScript string is a sequence of UTF-16 code units. A JavaScript number that the
  service handles is an identifier, a status code, a level or a price taken from a JSON
  payload; it is modelled as an unbounded integer.
\<close>

type_synonym jsstring = "16 word list"

text \<open>\<open>interface LiveAreaType\<close>.\<close>

record LiveAreaType =
  areaId :: jsstring
  parentId :: jsstring

text \<open>
  Modelled from the spec: the enumerations of \<open>enums/live-lottery.enum\<close> are not among the
  sources. The members are those the service names (\<open>PendentID.Time\<close>,
  \<open>PendentID.RedPacket\<close>, \<open>TianXuanStatus.Enabled\<close>, \<open>RequireType.None\<close>,
  \<open>RequireType.Follow\<close>, \<open>RequireType.Level\<close>); every other number the remote service may
  send is kept under the last constructor.
\<close>

datatype PendentID = Time | RedPacket | OtherPendent int

datatype TianXuanStatus = Enabled | OtherStatus int

datatype RequireType = NoRequire | Follow | Level | OtherRequire int

text \<open>
  Modelled from the spec: the types of \<open>dto/live.dto\<close> are not among the sources. Each
  record has the fields the service reads, with the shape the service reads them in
  (spec, sections 3 and 6). A name that clashes with a constant of HOL is primed. Whether a
  response carries its payload at all is not left to these types: see \<open>payload\<close> below.
\<close>

record Pendant =
  pendent_id :: PendentID

record LiveRoomList =
  roomid :: int
  uid :: int
  uname :: jsstring
  pendant_info :: "string \<rightharpoonup> Pendant"

record AreaEntry =
  id' :: jsstring
  parent_id :: jsstring

record AreaGroup =
  list' :: "AreaEntry list"

record AreaData =
  data' :: "AreaGroup list"

record RoomPageData =
  list' :: "LiveRoomList list"

record LiveCheckLotteryDto =
  id' :: int
  gift_id :: int
  gift_num :: int
  award_name :: jsstring
  status :: TianXuanStatus
  gift_price :: int
  require_type :: RequireType
  require_value :: int
  require_text :: jsstring

text \<open>\<open>type CheckedLottery = LiveCheckLotteryDto & { uid: number; uname: string }\<close>.\<close>

record CheckedLottery = LiveCheckLotteryDto +
  uid :: int
  uname :: jsstring

record RedPocket =
  lot_id :: int
  lot_status :: int

text \<open>\<open>popularity_red_pocket\<close> is absent (\<open>None\<close>) or an array, which may be empty.\<close>

record RedPacketData =
  popularity_red_pocket :: "RedPocket list option"

text \<open>\<open>interface RedPacket\<close>.\<close>

record RedPacket =
  uid :: int
  uname :: jsstring
  lot_id :: int
  room_id :: int

text \<open>An entry of \<open>newFollowUp: (number | string)[]\<close>.\<close>

datatype ident = Num int | Str jsstring

text \<open>
  What a rejected promise or a failing statement throws: an error of a remote call with its
  message, the \<open>TypeError\<close> of reading a property of \<open>undefined\<close> or \<open>null\<close>, or the
  \<open>SyntaxError\<close> of compiling a text that is not a regular expression.
\<close>

datatype exn = NetError jsstring | TypeError | SyntaxError

text \<open>
  The \<open>data\<close> field of a response: missing, \<open>null\<close>, or the payload. The service reads the
  fields of \<open>data\<close> without a test in most places, and reading a field of \<open>undefined\<close> or of
  \<open>null\<close> throws.
\<close>

datatype 'd payload = Undefined | Null | Data 'd

text \<open>
  The envelope \<open>{code, data, message}\<close> every remote call resolves to, or the exception the
  call rejects with.
\<close>

datatype 'd response = Throws exn | Resp int "'d payload" jsstring

text \<open>
  The outbound operations in the order the service issues them: the fixed delays of
  \<open>apiDelay\<close> and the requests of \<open>net/live.request\<close>, each with its arguments.
\<close>

datatype event =
    Delay nat
  | GetArea
  | GetLiveRoom jsstring jsstring int
  | CheckLottery int
  | JoinLottery int int int
  | CheckRedPacket int
  | JoinRedPacket int int int

text \<open>
  The remote service. What a request resolves to may depend on everything the service has
  done so far, so every operation takes the history of outbound operations before it.
\<close>

record net =
  getArea :: "event list \<Rightarrow> AreaData response"
  getLiveRoom :: "event list \<Rightarrow> jsstring \<Rightarrow> jsstring \<Rightarrow> int \<Rightarrow> RoomPageData response"
  checkLottery :: "event list \<Rightarrow> int \<Rightarrow> LiveCheckLotteryDto response"
  joinLottery :: "event list \<Rightarrow> int \<Rightarrow> int \<Rightarrow> int \<Rightarrow> unit response"
  checkRedPacket :: "event list \<Rightarrow> int \<Rightarrow> RedPacketData response"
  joinRedPacket :: "event list \<Rightarrow> int \<Rightarrow> int \<Rightarrow> int \<Rightarrow> unit response"

text \<open>
  The configuration the service reads: \<open>TaskConfig\<close>, \<open>TaskModule.userLevel\<close>, and the
  regular-expression engine behind \<open>award_name.match(text)\<close>, which is a parameter:
  \<open>re_match cfg name text\<close> is \<open>None\<close> when \<open>text\<close> does not compile to a regular expression
  (\<open>match\<close> throws a \<open>SyntaxError\<close>), and otherwise says whether \<open>name.match(text)\<close> is other
  than \<open>null\<close>. \<open>LOTTERY_PAGE_NUM\<close> may be left undefined.
\<close>

record TaskConfig =
  LOTTERY_UP_BLACKLIST :: "int list"
  LOTTERY_EXCLUDE :: "jsstring list"
  LOTTERY_INCLUDE :: "jsstring list"
  LOTTERY_PAGE_NUM :: "int option"
  userLevel :: int
  re_match :: "jsstring \<Rightarrow> jsstring \<Rightarrow> bool option"

text \<open>One line of the log, by the template that writes it.\<close>

datatype logline =
    AreaFailed int jsstring
  | AreaException exn
  | RoomListFailed int jsstring
  | RoomListException exn
  | SkipBlacklisted jsstring
  | CheckException int exn
  | CheckFailed int int jsstring
  | SkipAward jsstring
  | LotteryStreamer jsstring
  | LotteryAward jsstring
  | LotteryFailed int jsstring
  | LotterySuccess
  | LotteryException exn
  | RedPacketStreamer jsstring
  | RedPacketFailed int jsstring
  | RedPacketSuccess
  | RedPacketException exn

text \<open>
  The state of the process: the outbound operations so far, the log, the arrays on the
  heap (by address, with the next free address), and the module variable \<open>newFollowUp\<close>,
  which holds a reference to an array once a pipeline has run.
\<close>

record state =
  trace :: "event list"
  logs :: "logline list"
  heap :: "nat \<Rightarrow> ident list"
  nextRef :: nat
  newFollowUp :: "nat option"

section \<open>Sequencing, exceptions and loops\<close>

type_synonym 'a io = "state \<Rightarrow> (exn + 'a) \<times> state"

definition return_io :: "'a \<Rightarrow> 'a io" where
  "return_io x s = (Inr x, s)"

definition throw_io :: "exn \<Rightarrow> 'a io" where
  "throw_io e s = (Inl e, s)"

definition bind_io :: "'a io \<Rightarrow> ('a \<Rightarrow> 'b io) \<Rightarrow> 'b io" where
  "bind_io m f s = (case m s of (Inl e, s') \<Rightarrow> (Inl e, s') | (Inr x, s') \<Rightarrow> f x s')"

definition try_catch :: "'a io \<Rightarrow> (exn \<Rightarrow> 'a io) \<Rightarrow> 'a io" where
  "try_catch m h s = (case m s of (Inl e, s') \<Rightarrow> h e s' | (Inr x, s') \<Rightarrow> (Inr x, s'))"

text \<open>
  \<open>for (const x of xs) { ... }\<close>: the body runs on each element in order, with the local
  variables it updates passed along; an exception leaves the loop.
\<close>

primrec for_of :: "('a \<Rightarrow> 'b \<Rightarrow> 'b io) \<Rightarrow> 'a list \<Rightarrow> 'b \<Rightarrow> 'b io" where
  "for_of body [] acc = return_io acc"
| "for_of body (x # xs) acc = bind_io (body x acc) (for_of body xs)"

definition logger :: "logline \<Rightarrow> unit io" where
  "logger l s = (Inr (), s\<lparr>logs := logs s @ [l]\<rparr>)"

definition apiDelay :: "nat \<Rightarrow> unit io" where
  "apiDelay ms s = (Inr (), s\<lparr>trace := trace s @ [Delay ms]\<rparr>)"

text \<open>A value, or an exception, that a computation without effect has produced.\<close>

definition lift_io :: "exn + 'a \<Rightarrow> 'a io" where
  "lift_io r s = (r, s)"

text \<open>
  \<open>texts.some(text => name.match(text))\<close>: the texts are tried in order up to the first match;
  a text that does not compile throws when its turn comes.
\<close>

fun some_match :: "(jsstring \<Rightarrow> bool option) \<Rightarrow> jsstring list \<Rightarrow> exn + bool" where
  "some_match f [] = Inr False"
| "some_match f (text # texts) =
     (case f text of
        None \<Rightarrow> Inl SyntaxError
      | Some True \<Rightarrow> Inr True
      | Some False \<Rightarrow> some_match f texts)"

text \<open>A remote call: the request joins the trace, and the call resolves or rejects.\<close>

definition request :: "event \<Rightarrow> (event list \<Rightarrow> 'd response) \<Rightarrow> (int \<times> 'd payload \<times> jsstring) io" where
  "request ev f s =
     (let s' = s\<lparr>trace := trace s @ [ev]\<rparr> in
      case f (trace s) of
        Throws e \<Rightarrow> (Inl e, s')
      | Resp code d message \<Rightarrow> (Inr (code, d, message), s'))"

section \<open>Strings\<close>

text \<open>
  \<open>String.prototype.replace\<close> with a string pattern: the first occurrence is replaced. The
  replacement the service passes is empty, so the \<open>$\<close> patterns of a replacement string do
  not arise.
\<close>

fun replace :: "jsstring \<Rightarrow> jsstring \<Rightarrow> jsstring \<Rightarrow> jsstring" where
  "replace pat rep s =
     (if take (length pat) s = pat then rep @ drop (length pat) s
      else case s of [] \<Rightarrow> [] | c # cs \<Rightarrow> c # replace pat rep cs)"

text \<open>The class \<open>\s\<close> of an ECMAScript regular expression (white space and line terminators).\<close>

definition is_space :: "16 word \<Rightarrow> bool" where
  "is_space c \<longleftrightarrow>
     (0x0009 \<le> c \<and> c \<le> 0x000D) \<or> c = 0x0020 \<or> c = 0x00A0 \<or> c = 0x1680 \<or>
     (0x2000 \<le> c \<and> c \<le> 0x200A) \<or> c = 0x2028 \<or> c = 0x2029 \<or> c = 0x202F \<or>
     c = 0x205F \<or> c = 0x3000 \<or> c = 0xFEFF"

text \<open>
  A match of \<open>/\s*\+\s*/\<close> at the start of a string, returning what follows the match. White
  space and \<open>+\<close> are disjoint, so the greedy \<open>\s*\<close> never has to give a character back.
\<close>

definition match_plus :: "jsstring \<Rightarrow> jsstring option" where
  "match_plus s =
     (case dropWhile is_space s of
        [] \<Rightarrow> None
      | c # r \<Rightarrow> if c = 0x002B then Some (dropWhile is_space r) else None)"

lemma length_match_plus: "match_plus s = Some r \<Longrightarrow> length r < length s"
proof -
  assume m: "match_plus s = Some r"
  then obtain c t where d: "dropWhile is_space s = c # t" and r: "r = dropWhile is_space t"
    by (auto simp: match_plus_def split: list.splits if_splits)
  have "length r \<le> length t" using r by (simp add: length_dropWhile_le)
  moreover have "length (c # t) \<le> length s" using d length_dropWhile_le [of is_space s] by simp
  ultimately show ?thesis by simp
qed

text \<open>
  \<open>String.prototype.split\<close> with the separator \<open>/\s*\+\s*/\<close> (which never matches the empty
  string): the first argument holds the characters of the current piece, newest first.
\<close>

function split_plus :: "jsstring \<Rightarrow> jsstring \<Rightarrow> jsstring list" where
  "split_plus cur [] = [rev cur]"
| "split_plus cur (c # cs) =
     (case match_plus (c # cs) of
        Some r \<Rightarrow> rev cur # split_plus [] r
      | None \<Rightarrow> split_plus (c # cur) cs)"
  by pat_completeness auto

termination
  by (relation "measure (\<lambda>(cur, s). length s)") (auto dest: length_match_plus)

text \<open>The marker \<open>'\<dots>'\<close> of a follow requirement, four code units.\<close>

definition follow_marker :: jsstring where
  "follow_marker = [0x5173, 0x6CE8, 0x4E3B, 0x64AD]"

text \<open>\<open>getRequireUp\<close>; \<open>shift()\<close> drops the first element, and does nothing on an empty array.\<close>

definition getRequireUp :: "jsstring \<Rightarrow> jsstring list" where
  "getRequireUp requireText =
     (let requireText = replace follow_marker [] requireText;
          requireTextList = split_plus [] requireText
      in tl requireTextList)"

section \<open>The accumulator\<close>

text \<open>Reading the module variable \<open>newFollowUp\<close>.\<close>

definition get_newFollowUp :: "nat option io" where
  "get_newFollowUp s = (Inr (newFollowUp s), s)"

text \<open>\<open>newFollowUp = []\<close>: the variable is bound to a new, empty array.\<close>

definition reset_newFollowUp :: "unit io" where
  "reset_newFollowUp s =
     (Inr (), s\<lparr>heap := (heap s)(nextRef s := []),
                 nextRef := Suc (nextRef s),
                 newFollowUp := Some (nextRef s)\<rparr>)"

text \<open>\<open>array.push(item)\<close>; on \<open>undefined\<close> the property read throws.\<close>

definition array_push :: "nat option \<Rightarrow> ident \<Rightarrow> unit io" where
  "array_push array item s =
     (case array of
        None \<Rightarrow> (Inl TypeError, s)
      | Some a \<Rightarrow> (Inr (), s\<lparr>heap := (heap s)(a := heap s a @ [item])\<rparr>))"

text \<open>
  Modelled from the spec: \<open>pushIfNotExist\<close> of \<open>utils\<close> is not among the sources. The spec
  (section 4.4) has each name recorded "deduplicated against the accumulator": the item
  is pushed unless the array already holds it.
\<close>

definition pushIfNotExist :: "nat option \<Rightarrow> ident \<Rightarrow> unit io" where
  "pushIfNotExist array item s =
     (case array of
        None \<Rightarrow> (Inl TypeError, s)
      | Some a \<Rightarrow> if item \<in> set (heap s a) then (Inr (), s) else array_push array item s)"

section \<open>The service\<close>

text \<open>\<open>getLiveArea\<close>; \<open>data.data\<close> is read whatever the code is, inside the \<open>try\<close>.\<close>

definition getLiveArea :: "net \<Rightarrow> LiveAreaType list list io" where
  "getLiveArea n =
     try_catch
       (bind_io (request GetArea (getArea n)) (\<lambda>(code, data, message).
        bind_io (if code \<noteq> 0 then logger (AreaFailed code message) else return_io ()) (\<lambda>_.
        case data of
          Data data \<Rightarrow>
            return_io
              (map (\<lambda>item. map (\<lambda>area. \<lparr>areaId = AreaEntry.id' area, parentId = parent_id area\<rparr>) item)
                 (map AreaGroup.list' (data' data)))
        | _ \<Rightarrow> throw_io TypeError)))
       (\<lambda>error. bind_io (logger (AreaException error)) (\<lambda>_. throw_io error))"

text \<open>\<open>pendentLottery\<close>: the rooms with the time badge and those with the red-packet badge.\<close>

record Pendents =
  lotteryTime :: "LiveRoomList list"
  lotteryPacket :: "LiveRoomList list"

definition pendentLottery :: "LiveRoomList list \<Rightarrow> Pendents" where
  "pendentLottery list =
     foldl (\<lambda>acc item.
        case pendant_info item ''2'' of
          None \<Rightarrow> acc
        | Some num2 \<Rightarrow>
            if pendent_id num2 = Time then acc\<lparr>lotteryTime := lotteryTime acc @ [item]\<rparr>
            else if pendent_id num2 = RedPacket then acc\<lparr>lotteryPacket := lotteryPacket acc @ [item]\<rparr>
            else acc)
       \<lparr>lotteryTime = [], lotteryPacket = []\<rparr> list"

datatype lotType = lottery | redPack

text \<open>\<open>getLotteryRoomList\<close>; \<open>data.list\<close> is read whatever the code is, inside the \<open>try\<close>.\<close>

definition getLotteryRoomList ::
  "net \<Rightarrow> jsstring \<Rightarrow> jsstring \<Rightarrow> int \<Rightarrow> lotType \<Rightarrow> LiveRoomList list io" where
  "getLotteryRoomList n areaId' parentId' page lotType =
     try_catch
       (bind_io (apiDelay 100) (\<lambda>_.
        bind_io (request (GetLiveRoom parentId' areaId' page) (\<lambda>h. getLiveRoom n h parentId' areaId' page))
          (\<lambda>(code, data, message).
        bind_io (if code \<noteq> 0 then logger (RoomListFailed code message) else return_io ()) (\<lambda>_.
        case data of
          Data data \<Rightarrow>
            return_io
              ((if lotType = lottery then lotteryTime else lotteryPacket)
                 (pendentLottery (RoomPageData.list' data)))
        | _ \<Rightarrow> throw_io TypeError))))
       (\<lambda>error. bind_io (logger (RoomListException error)) (\<lambda>_. throw_io error))"

text \<open>
  \<open>checkLotteryRoom\<close>; \<open>None\<close> is the \<open>undefined\<close> of a skipped room. The \<open>try\<close> holds the remote
  call alone. After it \<open>data === null\<close> is the one test of the payload: the fields of a missing
  \<open>data\<close> are read, and the patterns are compiled and matched, outside the \<open>try\<close>.
\<close>

definition checkLotteryRoom :: "TaskConfig \<Rightarrow> net \<Rightarrow> LiveRoomList \<Rightarrow> LiveCheckLotteryDto option io" where
  "checkLotteryRoom cfg n room =
     (if LiveRoomList.uid room \<in> set (LOTTERY_UP_BLACKLIST cfg) then
        bind_io (logger (SkipBlacklisted (LiveRoomList.uname room))) (\<lambda>_. return_io None)
      else
        bind_io
          (try_catch
             (bind_io (request (CheckLottery (roomid room)) (\<lambda>h. checkLottery n h (roomid room)))
                (\<lambda>r. return_io (Some r)))
             (\<lambda>error. bind_io (logger (CheckException (roomid room) error)) (\<lambda>_. return_io None)))
          (\<lambda>r. case r of
             None \<Rightarrow> return_io None
           | Some (code, data, message) \<Rightarrow>
               if code \<noteq> 0 then
                 bind_io (logger (CheckFailed (roomid room) code message)) (\<lambda>_. return_io None)
               else (case data of
                 Null \<Rightarrow> return_io None
               | Undefined \<Rightarrow> throw_io TypeError
               | Data data \<Rightarrow>
                   bind_io (lift_io (some_match (re_match cfg (award_name data)) (LOTTERY_EXCLUDE cfg)))
                     (\<lambda>isExclude.
                   bind_io (lift_io (some_match (re_match cfg (award_name data)) (LOTTERY_INCLUDE cfg)))
                     (\<lambda>isInclude.
                   if \<not> isInclude \<and> isExclude then
                     bind_io (logger (SkipAward (award_name data))) (\<lambda>_. return_io None)
                   else if status data \<noteq> Enabled then return_io None
                   else if gift_price data > 0 then return_io None
                   else if require_type data \<noteq> NoRequire \<and> require_type data \<noteq> Follow then
                     (if require_type data = Level \<and> userLevel cfg \<ge> require_value data
                      then return_io (Some data)
                      else return_io None)
                   else return_io (Some data))))))"

text \<open>The loop of \<open>checkLotteryRoomList\<close> over the rooms of a page.\<close>

definition checkLotteryRoomList_rooms ::
  "TaskConfig \<Rightarrow> net \<Rightarrow> LiveRoomList list \<Rightarrow> CheckedLottery list io" where
  "checkLotteryRoomList_rooms cfg n roomList =
     for_of (\<lambda>room checkedRoomList.
        bind_io (checkLotteryRoom cfg n room) (\<lambda>data.
          case data of
            None \<Rightarrow> return_io checkedRoomList
          | Some data \<Rightarrow>
              bind_io (apiDelay 100) (\<lambda>_.
              return_io (checkedRoomList @
                [LiveCheckLotteryDto.extend data
                   (CheckedLottery.fields (LiveRoomList.uid room) (LiveRoomList.uname room))]))))
       roomList []"

text \<open>\<open>checkLotteryRoomList\<close>.\<close>

definition checkLotteryRoomList ::
  "TaskConfig \<Rightarrow> net \<Rightarrow> jsstring \<Rightarrow> jsstring \<Rightarrow> int \<Rightarrow> CheckedLottery list io" where
  "checkLotteryRoomList cfg n areaId' parentId' page =
     bind_io (getLotteryRoomList n areaId' parentId' page lottery) (checkLotteryRoomList_rooms cfg n)"

text \<open>\<open>doLottery\<close>.\<close>

definition doLottery :: "net \<Rightarrow> CheckedLottery \<Rightarrow> unit io" where
  "doLottery n lot =
     try_catch
       (bind_io (logger (LotteryStreamer (CheckedLottery.uname lot))) (\<lambda>_.
        bind_io (logger (LotteryAward (award_name lot))) (\<lambda>_.
        bind_io (request (JoinLottery (LiveCheckLotteryDto.id' lot) (gift_id lot) (gift_num lot))
                   (\<lambda>h. joinLottery n h (LiveCheckLotteryDto.id' lot) (gift_id lot) (gift_num lot)))
          (\<lambda>(code, _, message).
        if code \<noteq> 0 then logger (LotteryFailed code message)
        else
          bind_io (logger LotterySuccess) (\<lambda>_.
          if require_type lot = Follow then
            bind_io (bind_io get_newFollowUp (\<lambda>array. pushIfNotExist array (Num (CheckedLottery.uid lot)))) (\<lambda>_.
            for_of (\<lambda>requireText _.
                bind_io get_newFollowUp (\<lambda>array. pushIfNotExist array (Str requireText)))
              (getRequireUp (require_text lot)) ())
          else return_io ())))))
       (\<lambda>error. logger (LotteryException error))"

text \<open>The loop of \<open>doLotteryArea\<close> over the checked rooms of a page.\<close>

definition doLotteryArea_rooms :: "net \<Rightarrow> CheckedLottery list \<Rightarrow> unit io" where
  "doLotteryArea_rooms n rooms =
     for_of (\<lambda>room _. bind_io (doLottery n room) (\<lambda>_. apiDelay 300)) rooms ()"

text \<open>
  \<open>doLotteryArea\<close>: \<open>num\<close> defaults to 2 when the caller passes \<open>undefined\<close>; the pages run
  from 1 up to \<open>num\<close>.
\<close>

definition doLotteryArea :: "TaskConfig \<Rightarrow> net \<Rightarrow> jsstring \<Rightarrow> jsstring \<Rightarrow> int option \<Rightarrow> unit io" where
  "doLotteryArea cfg n areaId' parentId' num =
     (let num = (case num of None \<Rightarrow> 2 | Some k \<Rightarrow> k) in
      for_of (\<lambda>page _.
         bind_io (checkLotteryRoomList cfg n areaId' parentId' page) (doLotteryArea_rooms n))
        [1..num] ())"

text \<open>The loops of \<open>liveLotteryService\<close> over the major areas and their sub-areas.\<close>

definition liveLotteryService_areas :: "TaskConfig \<Rightarrow> net \<Rightarrow> LiveAreaType list list \<Rightarrow> unit io" where
  "liveLotteryService_areas cfg n areaList =
     for_of (\<lambda>areas _.
        for_of (\<lambda>area _. doLotteryArea cfg n (areaId area) (parentId area) (LOTTERY_PAGE_NUM cfg))
          areas ())
       areaList ()"

text \<open>\<open>liveLotteryService\<close>; the value returned is the reference held by \<open>newFollowUp\<close>.\<close>

definition liveLotteryService :: "TaskConfig \<Rightarrow> net \<Rightarrow> nat option io" where
  "liveLotteryService cfg n =
     bind_io reset_newFollowUp (\<lambda>_.
     bind_io (getLiveArea n) (\<lambda>areaList.
     bind_io (liveLotteryService_areas cfg n areaList) (\<lambda>_.
     get_newFollowUp)))"

text \<open>
  \<open>getRedPacketId\<close>: \<open>None\<close> is \<open>undefined\<close>. Reading \<open>popularity_red_pocket\<close> of a missing
  \<open>data\<close> throws; an empty array is truthy, so reading the fields of its first element throws;
  both inside the \<open>try\<close> whose \<open>catch\<close> is empty.
\<close>

definition getRedPacketId :: "net \<Rightarrow> int \<Rightarrow> int option io" where
  "getRedPacketId n roomId =
     try_catch
       (bind_io (request (CheckRedPacket roomId) (\<lambda>h. checkRedPacket n h roomId))
          (\<lambda>(code, data, message).
        if code \<noteq> 0 then return_io None
        else (case data of
          Data data \<Rightarrow>
            (case popularity_red_pocket data of
               None \<Rightarrow> return_io None
             | Some [] \<Rightarrow> throw_io TypeError
             | Some (p # _) \<Rightarrow>
                 if lot_status p = 2 then return_io None
                 else return_io (Some (RedPocket.lot_id p)))
        | _ \<Rightarrow> throw_io TypeError)))
       (\<lambda>error. return_io None)"

text \<open>The loop of \<open>getRedPacketRoom\<close> over the rooms of a page; \<open>if (lotId)\<close> is false for 0.\<close>

definition getRedPacketRoom_rooms :: "net \<Rightarrow> LiveRoomList list \<Rightarrow> RedPacket list io" where
  "getRedPacketRoom_rooms n roomList =
     for_of (\<lambda>room checkedRoomList.
        bind_io (getRedPacketId n (roomid room)) (\<lambda>lotId.
          if lotId \<noteq> None \<and> lotId \<noteq> Some 0 then
            bind_io (apiDelay 100) (\<lambda>_.
            return_io (checkedRoomList @
              [\<lparr>uid = LiveRoomList.uid room, uname = LiveRoomList.uname room,
                lot_id = the lotId, room_id = roomid room\<rparr>]))
          else return_io checkedRoomList))
       roomList []"

text \<open>\<open>getRedPacketRoom\<close>.\<close>

definition getRedPacketRoom :: "net \<Rightarrow> jsstring \<Rightarrow> jsstring \<Rightarrow> int \<Rightarrow> RedPacket list io" where
  "getRedPacketRoom n areaId' parentId' page =
     bind_io (getLotteryRoomList n areaId' parentId' page redPack) (getRedPacketRoom_rooms n)"

text \<open>\<open>doRedPacket\<close>.\<close>

definition doRedPacket :: "net \<Rightarrow> RedPacket \<Rightarrow> unit io" where
  "doRedPacket n redPacket =
     try_catch
       (bind_io (logger (RedPacketStreamer (uname redPacket))) (\<lambda>_.
        bind_io (request (JoinRedPacket (room_id redPacket) (lot_id redPacket) (uid redPacket))
                   (\<lambda>h. joinRedPacket n h (room_id redPacket) (lot_id redPacket) (uid redPacket)))
          (\<lambda>(code, _, message).
        if code \<noteq> 0 then logger (RedPacketFailed code message)
        else
          bind_io (bind_io get_newFollowUp (\<lambda>array. array_push array (Num (uid redPacket)))) (\<lambda>_.
          logger RedPacketSuccess))))
       (\<lambda>error. logger (RedPacketException error))"

text \<open>The loop of \<open>doRedPackArea\<close> over the candidate rooms of a page.\<close>

definition doRedPackArea_rooms :: "net \<Rightarrow> RedPacket list \<Rightarrow> unit io" where
  "doRedPackArea_rooms n rooms =
     for_of (\<lambda>room _. bind_io (doRedPacket n room) (\<lambda>_. apiDelay 200)) rooms ()"

text \<open>\<open>doRedPackArea\<close>.\<close>

definition doRedPackArea :: "net \<Rightarrow> jsstring \<Rightarrow> jsstring \<Rightarrow> int option \<Rightarrow> unit io" where
  "doRedPackArea n areaId' parentId' num =
     (let num = (case num of None \<Rightarrow> 2 | Some k \<Rightarrow> k) in
      for_of (\<lambda>page _.
         bind_io (getRedPacketRoom n areaId' parentId' page) (doRedPackArea_rooms n))
        [1..num] ())"

text \<open>The loops of \<open>liveRedPackService\<close> over the major areas and their sub-areas.\<close>

definition liveRedPackService_areas :: "TaskConfig \<Rightarrow> net \<Rightarrow> LiveAreaType list list \<Rightarrow> unit io" where
  "liveRedPackService_areas cfg n areaList =
     for_of (\<lambda>areas _.
        for_of (\<lambda>area _. doRedPackArea n (areaId area) (parentId area) (LOTTERY_PAGE_NUM cfg))
          areas ())
       areaList ()"

text \<open>\<open>liveRedPackService\<close>.\<close>

definition liveRedPackService :: "TaskConfig \<Rightarrow> net \<Rightarrow> nat option io" where
  "liveRedPackService cfg n =
     bind_io reset_newFollowUp (\<lambda>_.
     bind_io (getLiveArea n) (\<lambda>areaList.
     bind_io (liveRedPackService_areas cfg n areaList) (\<lambda>_.
     get_newFollowUp)))"

section \<open>Unfolding the sequencing\<close>

text \<open>The equations that run a straight-line action on a state.\<close>

lemmas io_defs = return_io_def throw_io_def bind_io_def try_catch_def logger_def apiDelay_def
  request_def get_newFollowUp_def lift_io_def

section \<open>Invariants of the state\<close>

text \<open>An action preserves an assertion when every state that satisfies it is taken to one that does.\<close>

definition preserves :: "(state \<Rightarrow> bool) \<Rightarrow> 'a io \<Rightarrow> bool" where
  "preserves I m \<longleftrightarrow> (\<forall>s. I s \<longrightarrow> I (snd (m s)))"

named_theorems pres

lemma preserves_return [pres]: "preserves I (return_io x)"
  by (simp add: preserves_def return_io_def)

lemma preserves_throw [pres]: "preserves I (throw_io e)"
  by (simp add: preserves_def throw_io_def)

lemma preserves_lift [pres]: "preserves I (lift_io r)"
  by (simp add: preserves_def lift_io_def)

lemma preserves_get [pres]: "preserves I get_newFollowUp"
  by (simp add: preserves_def get_newFollowUp_def)

lemma preserves_bind [pres]:
  assumes "preserves I m" and "\<And>x. preserves I (f x)"
  shows "preserves I (bind_io m f)"
  unfolding preserves_def
proof (intro allI impI)
  fix s assume "I s"
  then have 1: "I (snd (m s))" using assms(1) by (simp add: preserves_def)
  show "I (snd (bind_io m f s))"
  proof (cases "m s")
    case (Pair r s')
    then show ?thesis using 1 assms(2) by (cases r) (auto simp: bind_io_def preserves_def)
  qed
qed

lemma preserves_try_catch [pres]:
  assumes "preserves I m" and "\<And>e. preserves I (h e)"
  shows "preserves I (try_catch m h)"
  unfolding preserves_def
proof (intro allI impI)
  fix s assume "I s"
  then have 1: "I (snd (m s))" using assms(1) by (simp add: preserves_def)
  show "I (snd (try_catch m h s))"
  proof (cases "m s")
    case (Pair r s')
    then show ?thesis using 1 assms(2) by (cases r) (auto simp: try_catch_def preserves_def)
  qed
qed

lemma preserves_for_of [pres]:
  assumes "\<And>x acc. preserves I (body x acc)"
  shows "preserves I (for_of body xs acc)"
  by (induction xs arbitrary: acc) (auto intro: pres assms)

lemma preserves_if [pres]:
  "(c \<Longrightarrow> preserves I a) \<Longrightarrow> (\<not> c \<Longrightarrow> preserves I b) \<Longrightarrow> preserves I (if c then a else b)"
  by simp

lemma preserves_case_prod [pres]:
  "(\<And>a b. preserves I (f a b)) \<Longrightarrow> preserves I (case p of (a, b) \<Rightarrow> f a b)"
  by (cases p) simp

lemma preserves_case_option [pres]:
  "preserves I a \<Longrightarrow> (\<And>x. preserves I (f x)) \<Longrightarrow> preserves I (case v of None \<Rightarrow> a | Some x \<Rightarrow> f x)"
  by (cases v) simp_all

lemma preserves_case_payload [pres]:
  "preserves I a \<Longrightarrow> preserves I b \<Longrightarrow> (\<And>x. preserves I (f x)) \<Longrightarrow>
   preserves I (case v of Undefined \<Rightarrow> a | Null \<Rightarrow> b | Data x \<Rightarrow> f x)"
  by (cases v) simp_all

lemma preserves_case_list [pres]:
  "preserves I a \<Longrightarrow> (\<And>x xs. preserves I (f x xs)) \<Longrightarrow> preserves I (case v of [] \<Rightarrow> a | x # xs \<Rightarrow> f x xs)"
  by (cases v) simp_all

lemma preserves_logger:
  "(\<And>s. I s \<Longrightarrow> I (s\<lparr>logs := logs s @ [l]\<rparr>)) \<Longrightarrow> preserves I (logger l)"
  by (simp add: preserves_def logger_def)

lemma preserves_apiDelay:
  "(\<And>s. I s \<Longrightarrow> I (s\<lparr>trace := trace s @ [Delay ms]\<rparr>)) \<Longrightarrow> preserves I (apiDelay ms)"
  by (simp add: preserves_def apiDelay_def)

lemma preserves_request:
  "(\<And>s. I s \<Longrightarrow> I (s\<lparr>trace := trace s @ [ev]\<rparr>)) \<Longrightarrow> preserves I (request ev f)"
  by (auto simp: preserves_def request_def Let_def split: response.splits)

text \<open>The outbound operations by kind: fixed delays, fetches of the categories and of a page
  of rooms, checks of a room, and joins.\<close>

fun is_delay :: "event \<Rightarrow> bool" where
  "is_delay (Delay ms) = True"
| "is_delay e = False"

fun is_fetch :: "event \<Rightarrow> bool" where
  "is_fetch GetArea = True"
| "is_fetch (GetLiveRoom p a page) = True"
| "is_fetch e = False"

fun is_check :: "event \<Rightarrow> bool" where
  "is_check (CheckLottery r) = True"
| "is_check (CheckRedPacket r) = True"
| "is_check e = False"

fun is_join :: "event \<Rightarrow> bool" where
  "is_join (JoinLottery i g k) = True"
| "is_join (JoinRedPacket r l u) = True"
| "is_join e = False"

lemmas leaf = preserves_logger preserves_apiDelay preserves_request

lemma getLiveArea_pres:
  assumes lg: "\<And>s l. I s \<Longrightarrow> I (s\<lparr>logs := logs s @ [l]\<rparr>)"
    and ft: "\<And>s e. I s \<Longrightarrow> is_fetch e \<Longrightarrow> I (s\<lparr>trace := trace s @ [e]\<rparr>)"
  shows "preserves I (getLiveArea n)"
  unfolding getLiveArea_def
  by (intro pres leaf lg ft; simp)

lemma getLotteryRoomList_pres:
  assumes lg: "\<And>s l. I s \<Longrightarrow> I (s\<lparr>logs := logs s @ [l]\<rparr>)"
    and dl: "\<And>s e. I s \<Longrightarrow> is_delay e \<Longrightarrow> I (s\<lparr>trace := trace s @ [e]\<rparr>)"
    and ft: "\<And>s e. I s \<Longrightarrow> is_fetch e \<Longrightarrow> I (s\<lparr>trace := trace s @ [e]\<rparr>)"
  shows "preserves I (getLotteryRoomList n a p page t)"
  unfolding getLotteryRoomList_def
  by (intro pres leaf lg dl ft; simp)

lemma checkLotteryRoom_pres:
  assumes lg: "\<And>s l. I s \<Longrightarrow> I (s\<lparr>logs := logs s @ [l]\<rparr>)"
    and ck: "\<And>s e. I s \<Longrightarrow> is_check e \<Longrightarrow> I (s\<lparr>trace := trace s @ [e]\<rparr>)"
  shows "preserves I (checkLotteryRoom cfg n room)"
  unfolding checkLotteryRoom_def
  by (intro pres leaf lg ck; simp)

lemma checkLotteryRoomList_rooms_pres:
  assumes lg: "\<And>s l. I s \<Longrightarrow> I (s\<lparr>logs := logs s @ [l]\<rparr>)"
    and dl: "\<And>s e. I s \<Longrightarrow> is_delay e \<Longrightarrow> I (s\<lparr>trace := trace s @ [e]\<rparr>)"
    and ck: "\<And>s e. I s \<Longrightarrow> is_check e \<Longrightarrow> I (s\<lparr>trace := trace s @ [e]\<rparr>)"
  shows "preserves I (checkLotteryRoomList_rooms cfg n roomList)"
  unfolding checkLotteryRoomList_rooms_def
  by (intro pres leaf checkLotteryRoom_pres lg dl ck; simp)

lemma checkLotteryRoomList_pres:
  assumes lg: "\<And>s l. I s \<Longrightarrow> I (s\<lparr>logs := logs s @ [l]\<rparr>)"
    and dl: "\<And>s e. I s \<Longrightarrow> is_delay e \<Longrightarrow> I (s\<lparr>trace := trace s @ [e]\<rparr>)"
    and ft: "\<And>s e. I s \<Longrightarrow> is_fetch e \<Longrightarrow> I (s\<lparr>trace := trace s @ [e]\<rparr>)"
    and ck: "\<And>s e. I s \<Longrightarrow> is_check e \<Longrightarrow> I (s\<lparr>trace := trace s @ [e]\<rparr>)"
  shows "preserves I (checkLotteryRoomList cfg n a p page)"
  unfolding checkLotteryRoomList_def
  by (intro pres checkLotteryRoomList_rooms_pres getLotteryRoomList_pres lg dl ft ck; simp)

lemma getRedPacketId_pres:
  assumes ck: "\<And>s e. I s \<Longrightarrow> is_check e \<Longrightarrow> I (s\<lparr>trace := trace s @ [e]\<rparr>)"
  shows "preserves I (getRedPacketId n r)"
  unfolding getRedPacketId_def
  by (intro pres leaf ck; simp)

lemma getRedPacketRoom_rooms_pres:
  assumes dl: "\<And>s e. I s \<Longrightarrow> is_delay e \<Longrightarrow> I (s\<lparr>trace := trace s @ [e]\<rparr>)"
    and ck: "\<And>s e. I s \<Longrightarrow> is_check e \<Longrightarrow> I (s\<lparr>trace := trace s @ [e]\<rparr>)"
  shows "preserves I (getRedPacketRoom_rooms n roomList)"
  unfolding getRedPacketRoom_rooms_def
  by (intro pres leaf getRedPacketId_pres dl ck; simp)

lemma getRedPacketRoom_pres:
  assumes lg: "\<And>s l. I s \<Longrightarrow> I (s\<lparr>logs := logs s @ [l]\<rparr>)"
    and dl: "\<And>s e. I s \<Longrightarrow> is_delay e \<Longrightarrow> I (s\<lparr>trace := trace s @ [e]\<rparr>)"
    and ft: "\<And>s e. I s \<Longrightarrow> is_fetch e \<Longrightarrow> I (s\<lparr>trace := trace s @ [e]\<rparr>)"
    and ck: "\<And>s e. I s \<Longrightarrow> is_check e \<Longrightarrow> I (s\<lparr>trace := trace s @ [e]\<rparr>)"
  shows "preserves I (getRedPacketRoom n a p page)"
  unfolding getRedPacketRoom_def
  by (intro pres getRedPacketRoom_rooms_pres getLotteryRoomList_pres lg dl ft ck; simp)

lemma pushIfNotExist_trace [simp]: "trace (snd (pushIfNotExist arr x s)) = trace s"
  by (simp add: pushIfNotExist_def array_push_def split: option.splits)

lemma array_push_trace [simp]: "trace (snd (array_push arr x s)) = trace s"
  by (simp add: array_push_def split: option.splits)

text \<open>The join request that \<open>doLottery\<close> and \<open>doRedPacket\<close> issue for a room.\<close>

definition lottery_join :: "CheckedLottery \<Rightarrow> event" where
  "lottery_join lot = JoinLottery (LiveCheckLotteryDto.id' lot) (gift_id lot) (gift_num lot)"

definition red_packet_join :: "RedPacket \<Rightarrow> event" where
  "red_packet_join c = JoinRedPacket (room_id c) (lot_id c) (uid c)"

section \<open>Returning normally\<close>

text \<open>An action that returns a value from every state: no exception leaves it.\<close>

definition no_throw :: "'a io \<Rightarrow> bool" where
  "no_throw m \<longleftrightarrow> (\<forall>s. \<exists>x. fst (m s) = Inr x)"

named_theorems nothrow

lemma no_throw_return [nothrow]: "no_throw (return_io x)"
  by (simp add: no_throw_def return_io_def)

lemma no_throw_get [nothrow]: "no_throw get_newFollowUp"
  by (simp add: no_throw_def get_newFollowUp_def)

lemma no_throw_logger [nothrow]: "no_throw (logger l)"
  by (simp add: no_throw_def logger_def)

lemma no_throw_apiDelay [nothrow]: "no_throw (apiDelay ms)"
  by (simp add: no_throw_def apiDelay_def)

lemma no_throw_reset [nothrow]: "no_throw reset_newFollowUp"
  by (simp add: no_throw_def reset_newFollowUp_def)

lemma no_throw_bind [nothrow]:
  assumes "no_throw m" and "\<And>x. no_throw (f x)"
  shows "no_throw (bind_io m f)"
  unfolding no_throw_def
proof
  fix s
  obtain x where x: "fst (m s) = Inr x" using assms(1) by (auto simp: no_throw_def)
  obtain y where "fst (f x (snd (m s))) = Inr y" using assms(2) by (auto simp: no_throw_def)
  then show "\<exists>y. fst (bind_io m f s) = Inr y"
    using x by (cases "m s") (simp add: bind_io_def)
qed

lemma no_throw_caught [nothrow]:
  assumes "\<And>e. no_throw (h e)"
  shows "no_throw (try_catch m h)"
  unfolding no_throw_def
proof
  fix s
  show "\<exists>y. fst (try_catch m h s) = Inr y"
  proof (cases "m s")
    case (Pair r s')
    then show ?thesis using assms by (cases r) (auto simp: try_catch_def no_throw_def)
  qed
qed

lemma no_throw_try:
  assumes "no_throw m"
  shows "no_throw (try_catch m h)"
  unfolding no_throw_def
proof
  fix s
  obtain x where x: "fst (m s) = Inr x" using assms(1) by (auto simp: no_throw_def)
  then show "\<exists>y. fst (try_catch m h s) = Inr y"
    by (cases "m s") (simp add: try_catch_def)
qed

lemma no_throw_for_of [nothrow]:
  assumes "\<And>x acc. no_throw (body x acc)"
  shows "no_throw (for_of body xs acc)"
  by (induction xs arbitrary: acc) (auto intro: nothrow assms)

lemma no_throw_if [nothrow]:
  "(c \<Longrightarrow> no_throw a) \<Longrightarrow> (\<not> c \<Longrightarrow> no_throw b) \<Longrightarrow> no_throw (if c then a else b)"
  by simp

lemma no_throw_case_prod [nothrow]:
  "(\<And>a b. no_throw (f a b)) \<Longrightarrow> no_throw (case p of (a, b) \<Rightarrow> f a b)"
  by (cases p) simp

lemma no_throw_case_payload [nothrow]:
  "no_throw a \<Longrightarrow> no_throw b \<Longrightarrow> (\<And>x. no_throw (f x)) \<Longrightarrow>
   no_throw (case v of Undefined \<Rightarrow> a | Null \<Rightarrow> b | Data x \<Rightarrow> f x)"
  by (cases v) simp_all

lemma no_throw_case_option [nothrow]:
  "no_throw a \<Longrightarrow> (\<And>x. no_throw (f x)) \<Longrightarrow> no_throw (case v of None \<Rightarrow> a | Some x \<Rightarrow> f x)"
  by (cases v) simp_all

section \<open>From one assertion to another\<close>

text \<open>An action that takes every state satisfying the first assertion to one satisfying the
  second, whether it returns or throws.\<close>

definition steps :: "(state \<Rightarrow> bool) \<Rightarrow> 'a io \<Rightarrow> (state \<Rightarrow> bool) \<Rightarrow> bool" where
  "steps P m Q \<longleftrightarrow> (\<forall>s. P s \<longrightarrow> Q (snd (m s)))"

lemma steps_try:
  assumes "steps P m Q" and "\<And>e. preserves Q (h e)"
  shows "steps P (try_catch m h) Q"
  unfolding steps_def
proof (intro allI impI)
  fix s assume "P s"
  then have 1: "Q (snd (m s))" using assms(1) by (simp add: steps_def)
  show "Q (snd (try_catch m h s))"
  proof (cases "m s")
    case (Pair r s')
    then show ?thesis using 1 assms(2) by (cases r) (auto simp: try_catch_def preserves_def)
  qed
qed

lemma steps_bind_pre:
  assumes "preserves P m" and "no_throw m" and "\<And>x. steps P (f x) Q"
  shows "steps P (bind_io m f) Q"
  unfolding steps_def
proof (intro allI impI)
  fix s assume "P s"
  then have 1: "P (snd (m s))" using assms(1) by (simp add: preserves_def)
  obtain x where x: "fst (m s) = Inr x" using assms(2) by (auto simp: no_throw_def)
  have "Q (snd (f x (snd (m s))))" using 1 assms(3) by (simp add: steps_def)
  then show "Q (snd (bind_io m f s))"
    using x by (cases "m s") (simp add: bind_io_def)
qed

lemma steps_bind_post:
  assumes "steps P m Q" and "\<And>x. preserves Q (f x)"
  shows "steps P (bind_io m f) Q"
  unfolding steps_def
proof (intro allI impI)
  fix s assume "P s"
  then have 1: "Q (snd (m s))" using assms(1) by (simp add: steps_def)
  show "Q (snd (bind_io m f s))"
  proof (cases "m s")
    case (Pair r s')
    then show ?thesis using 1 assms(2) by (cases r) (auto simp: bind_io_def preserves_def)
  qed
qed

lemma steps_request:
  "steps (\<lambda>s. trace s = t) (request ev f) (\<lambda>s. trace s = t @ [ev])"
  by (auto simp: steps_def request_def Let_def split: response.splits)

lemma pushIfNotExist_keeps_trace: "preserves (\<lambda>s. trace s = t) (pushIfNotExist arr x)"
  by (simp add: preserves_def)

lemma array_push_keeps_trace: "preserves (\<lambda>s. trace s = t) (array_push arr x)"
  by (simp add: preserves_def)

lemma doLottery_steps:
  "steps (\<lambda>s. trace s = t) (doLottery n lot) (\<lambda>s. trace s = t @ [lottery_join lot])"
  unfolding doLottery_def lottery_join_def
  apply (rule steps_try)
   apply (rule steps_bind_pre)
     apply (rule preserves_logger, simp)
    apply (rule no_throw_logger)
   apply (rule steps_bind_pre)
     apply (rule preserves_logger, simp)
    apply (rule no_throw_logger)
   apply (rule steps_bind_post)
    apply (rule steps_request)
   apply (intro pres leaf pushIfNotExist_keeps_trace; simp)
  apply (rule preserves_logger, simp)
  done

lemma doLottery_trace: "trace (snd (doLottery n lot s)) = trace s @ [lottery_join lot]"
  using doLottery_steps [of "trace s" n lot] by (simp add: steps_def)

lemma doRedPacket_steps:
  "steps (\<lambda>s. trace s = t) (doRedPacket n c) (\<lambda>s. trace s = t @ [red_packet_join c])"
  unfolding doRedPacket_def red_packet_join_def
  apply (rule steps_try)
   apply (rule steps_bind_pre)
     apply (rule preserves_logger, simp)
    apply (rule no_throw_logger)
   apply (rule steps_bind_post)
    apply (rule steps_request)
   apply (intro pres leaf array_push_keeps_trace; simp)
  apply (rule preserves_logger, simp)
  done

lemma doRedPacket_trace: "trace (snd (doRedPacket n c s)) = trace s @ [red_packet_join c]"
  using doRedPacket_steps [of "trace s" n c] by (simp add: steps_def)

lemma doLottery_no_throw: "no_throw (doLottery n lot)"
  unfolding doLottery_def
  by (intro nothrow)

lemma getRedPacketId_no_throw: "no_throw (getRedPacketId n r)"
  unfolding getRedPacketId_def
  by (intro nothrow)

lemma doRedPacket_no_throw: "no_throw (doRedPacket n c)"
  unfolding doRedPacket_def
  by (intro nothrow)

lemma doLotteryArea_rooms_no_throw: "no_throw (doLotteryArea_rooms n rooms)"
  unfolding doLotteryArea_rooms_def
  by (intro nothrow doLottery_no_throw)

lemma getRedPacketRoom_rooms_no_throw: "no_throw (getRedPacketRoom_rooms n rooms)"
  unfolding getRedPacketRoom_rooms_def
  by (intro nothrow getRedPacketId_no_throw)

lemma doRedPackArea_rooms_no_throw: "no_throw (doRedPackArea_rooms n rooms)"
  unfolding doRedPackArea_rooms_def
  by (intro nothrow doRedPacket_no_throw)

section \<open>Answers that the unguarded reads rely on\<close>

text \<open>Every fetch of the categories, and every fetch of a page, resolves with a payload.\<close>

definition areas_resolve :: "net \<Rightarrow> bool" where
  "areas_resolve n \<longleftrightarrow> (\<forall>h. \<exists>code d m. getArea n h = Resp code (Data d) m)"

definition pages_resolve :: "net \<Rightarrow> bool" where
  "pages_resolve n \<longleftrightarrow> (\<forall>h p a page. \<exists>code d m. getLiveRoom n h p a page = Resp code (Data d) m)"

text \<open>No check of a draw resolves with code 0 and a missing \<open>data\<close>.\<close>

definition draws_defined :: "net \<Rightarrow> bool" where
  "draws_defined n \<longleftrightarrow> (\<forall>h r m. checkLottery n h r \<noteq> Resp 0 Undefined m)"

text \<open>Every configured pattern compiles.\<close>

definition patterns_compile :: "TaskConfig \<Rightarrow> bool" where
  "patterns_compile cfg \<longleftrightarrow>
     (\<forall>name. \<forall>t\<in>set (LOTTERY_EXCLUDE cfg @ LOTTERY_INCLUDE cfg). re_match cfg name t \<noteq> None)"

text \<open>The categories of a payload, as \<open>getLiveArea\<close> returns them.\<close>

definition areas_of :: "AreaData \<Rightarrow> LiveAreaType list list" where
  "areas_of d =
     map (\<lambda>item. map (\<lambda>area. \<lparr>areaId = AreaEntry.id' area, parentId = parent_id area\<rparr>)
                 (AreaGroup.list' item)) (data' d)"

text \<open>The rooms of a page that carry the badge of a pipeline.\<close>

definition badge_rooms :: "lotType \<Rightarrow> RoomPageData \<Rightarrow> LiveRoomList list" where
  "badge_rooms t d =
     (if t = lottery then lotteryTime else lotteryPacket) (pendentLottery (RoomPageData.list' d))"

lemma getLiveArea_resolved:
  assumes "getArea n (trace s) = Resp code (Data d) m"
  shows "getLiveArea n s =
    (Inr (areas_of d),
     s\<lparr>trace := trace s @ [GetArea],
        logs := logs s @ (if code \<noteq> 0 then [AreaFailed code m] else [])\<rparr>)"
  using assms by (simp add: getLiveArea_def io_defs areas_of_def comp_def)

lemma getLotteryRoomList_resolved:
  assumes "getLiveRoom n (trace s @ [Delay 100]) p a page = Resp code (Data d) m"
  shows "getLotteryRoomList n a p page t s =
    (Inr (badge_rooms t d),
     s\<lparr>trace := trace s @ [Delay 100, GetLiveRoom p a page],
        logs := logs s @ (if code \<noteq> 0 then [RoomListFailed code m] else [])\<rparr>)"
  using assms by (simp add: getLotteryRoomList_def io_defs badge_rooms_def)

lemma getLiveArea_no_throw:
  assumes "areas_resolve n"
  shows "no_throw (getLiveArea n)"
  unfolding no_throw_def
proof
  fix s :: state
  obtain code d m where "getArea n (trace s) = Resp code (Data d) m"
    using assms unfolding areas_resolve_def by blast
  then show "\<exists>x. fst (getLiveArea n s) = Inr x" by (simp add: getLiveArea_resolved)
qed

lemma getLotteryRoomList_no_throw:
  assumes "pages_resolve n"
  shows "no_throw (getLotteryRoomList n a p page t)"
  unfolding no_throw_def
proof
  fix s :: state
  obtain code d m where "getLiveRoom n (trace s @ [Delay 100]) p a page = Resp code (Data d) m"
    using assms unfolding pages_resolve_def by blast
  then show "\<exists>x. fst (getLotteryRoomList n a p page t s) = Inr x"
    by (simp add: getLotteryRoomList_resolved)
qed

lemma some_match_compiles:
  "\<forall>t\<in>set ts. f t \<noteq> None \<Longrightarrow> \<exists>b. some_match f ts = Inr b"
  by (induction ts) (auto split: option.splits bool.splits)

lemma checkLotteryRoom_no_throw:
  assumes "draws_defined n" and "patterns_compile cfg"
  shows "no_throw (checkLotteryRoom cfg n room)"
  unfolding no_throw_def
proof
  fix s
  show "\<exists>x. fst (checkLotteryRoom cfg n room s) = Inr x"
  proof (cases "checkLottery n (trace s) (roomid room)")
    case (Throws e)
    then show ?thesis by (simp add: checkLotteryRoom_def io_defs)
  next
    case (Resp code d m)
    show ?thesis
    proof (cases d)
      case Undefined
      then have "code \<noteq> 0" using assms(1) Resp by (auto simp: draws_defined_def)
      then show ?thesis using Resp by (simp add: checkLotteryRoom_def io_defs)
    next
      case Null
      then show ?thesis using Resp by (simp add: checkLotteryRoom_def io_defs)
    next
      case (Data x)
      obtain b1 where b1: "some_match (re_match cfg (award_name x)) (LOTTERY_EXCLUDE cfg) = Inr b1"
        using assms(2) some_match_compiles [of "LOTTERY_EXCLUDE cfg" "re_match cfg (award_name x)"]
        by (auto simp: patterns_compile_def)
      obtain b2 where b2: "some_match (re_match cfg (award_name x)) (LOTTERY_INCLUDE cfg) = Inr b2"
        using assms(2) some_match_compiles [of "LOTTERY_INCLUDE cfg" "re_match cfg (award_name x)"]
        by (auto simp: patterns_compile_def)
      show ?thesis using Resp Data by (simp add: checkLotteryRoom_def io_defs b1 b2)
    qed
  qed
qed

lemma checkLotteryRoomList_rooms_no_throw:
  "draws_defined n \<Longrightarrow> patterns_compile cfg \<Longrightarrow> no_throw (checkLotteryRoomList_rooms cfg n rooms)"
  unfolding checkLotteryRoomList_rooms_def
  by (intro nothrow checkLotteryRoom_no_throw)

lemma liveLotteryService_no_throw:
  assumes "areas_resolve n" and "pages_resolve n" and "draws_defined n" and "patterns_compile cfg"
  shows "no_throw (liveLotteryService cfg n)"
  unfolding liveLotteryService_def liveLotteryService_areas_def doLotteryArea_def Let_def
    checkLotteryRoomList_def
  by (intro nothrow getLiveArea_no_throw getLotteryRoomList_no_throw
      checkLotteryRoomList_rooms_no_throw doLotteryArea_rooms_no_throw assms)

lemma liveRedPackService_no_throw:
  assumes "areas_resolve n" and "pages_resolve n"
  shows "no_throw (liveRedPackService cfg n)"
  unfolding liveRedPackService_def liveRedPackService_areas_def doRedPackArea_def Let_def
    getRedPacketRoom_def
  by (intro nothrow getLiveArea_no_throw getLotteryRoomList_no_throw
      getRedPacketRoom_rooms_no_throw doRedPackArea_rooms_no_throw assms)

section \<open>Splitting a requirement text\<close>

lemma plus_not_space: "\<not> is_space 0x2B"
  by (simp add: is_space_def)

lemma match_plus_inside:
  assumes "\<exists>x\<in>set t. \<not> is_space x" and "0x2B \<notin> set t"
  shows "match_plus (t @ ys) = None"
proof -
  from assms(1) obtain x where x: "x \<in> set t" "\<not> is_space x" by blast
  then have d: "dropWhile is_space (t @ ys) = dropWhile is_space t @ ys"
    by (rule dropWhile_append1)
  have ne: "dropWhile is_space t \<noteq> []" using x by (auto simp: dropWhile_eq_Nil_conv)
  then obtain c r where cr: "dropWhile is_space t = c # r" by (cases "dropWhile is_space t") auto
  then have "c \<in> set t" by (metis list.set_intros(1) set_dropWhileD)
  then have "c \<noteq> 0x2B" using assms(2) by auto
  then show ?thesis by (simp add: match_plus_def d cr)
qed

lemma match_plus_spaces:
  assumes "\<forall>x\<in>set ws. is_space x"
  shows "match_plus (ws @ 0x2B # rest) = Some (dropWhile is_space rest)"
proof -
  have "dropWhile is_space (ws @ 0x2B # rest) = 0x2B # rest"
    using assms plus_not_space by (simp add: dropWhile_append2)
  then show ?thesis by (simp add: match_plus_def)
qed

lemma split_plus_no_plus: "0x2B \<notin> set t \<Longrightarrow> split_plus cur t = [rev cur @ t]"
proof (induction t arbitrary: cur)
  case Nil
  then show ?case by simp
next
  case (Cons c cs)
  have "match_plus (c # cs) = None"
  proof (cases "\<exists>x\<in>set (c # cs). \<not> is_space x")
    case True
    then show ?thesis using match_plus_inside [of "c # cs" "[]"] Cons.prems by simp
  next
    case False
    then have "dropWhile is_space (c # cs) = []" by (simp add: dropWhile_eq_Nil_conv)
    then show ?thesis unfolding match_plus_def by simp
  qed
  then show ?case using Cons by simp
qed

lemma split_plus_first:
  "0x2B \<notin> set t \<Longrightarrow> tl (split_plus cur (t @ 0x2B # rest)) = split_plus [] (dropWhile is_space rest)"
proof (induction t arbitrary: cur)
  case Nil
  have "match_plus (0x2B # rest) = Some (dropWhile is_space rest)"
    using match_plus_spaces [of "[]" rest] by simp
  then show ?case by simp
next
  case (Cons c cs)
  show ?case
  proof (cases "\<exists>x\<in>set (c # cs). \<not> is_space x")
    case True
    then have "match_plus ((c # cs) @ 0x2B # rest) = None"
      using Cons.prems by (intro match_plus_inside) auto
    then show ?thesis using Cons by simp
  next
    case False
    then have "match_plus ((c # cs) @ 0x2B # rest) = Some (dropWhile is_space rest)"
      by (intro match_plus_spaces) auto
    then show ?thesis by simp
  qed
qed

lemma split_plus_token:
  assumes "0x2B \<notin> set t" and "t = [] \<or> \<not> is_space (last t)" and "\<forall>x\<in>set ws. is_space x"
  shows "split_plus cur (t @ ws @ 0x2B # rest) = (rev cur @ t) # split_plus [] (dropWhile is_space rest)"
  using assms(1,2)
proof (induction t arbitrary: cur)
  case Nil
  have m: "match_plus (ws @ 0x2B # rest) = Some (dropWhile is_space rest)"
    using assms(3) by (rule match_plus_spaces)
  show ?case
  proof (cases ws)
    case Nil
    then show ?thesis using m by simp
  next
    case (Cons w ws')
    then show ?thesis using m by simp
  qed
next
  case (Cons c cs)
  have "\<not> is_space (last (c # cs))" using Cons.prems(2) by simp
  then have "\<exists>x\<in>set (c # cs). \<not> is_space x" by (metis last_in_set list.distinct(1))
  then have "match_plus ((c # cs) @ ws @ 0x2B # rest) = None"
    using Cons.prems(1) by (intro match_plus_inside) auto
  moreover have "cs = [] \<or> \<not> is_space (last cs)" using Cons.prems(2) by (cases cs) auto
  ultimately show ?case using Cons.IH [of "c # cur"] Cons.prems(1) by simp
qed

text \<open>A streamer name as the requirement text lists it: not empty, free of \<open>+\<close>, and with no
  white space at either end.\<close>

definition is_name :: "jsstring \<Rightarrow> bool" where
  "is_name t \<longleftrightarrow> t \<noteq> [] \<and> 0x2B \<notin> set t \<and> \<not> is_space (hd t) \<and> \<not> is_space (last t)"

text \<open>The text \<open>'<marker> A + B + C'\<close>.\<close>

definition follow_text :: "jsstring \<Rightarrow> jsstring \<Rightarrow> jsstring \<Rightarrow> jsstring" where
  "follow_text A B C = follow_marker @ [0x20] @ A @ [0x20, 0x2B, 0x20] @ B @ [0x20, 0x2B, 0x20] @ C"

lemma is_name_dropWhile: "is_name t \<Longrightarrow> dropWhile is_space (0x20 # t @ r) = t @ r"
  by (cases t) (auto simp: is_name_def is_space_def)

lemma replace_follow_text:
  "replace follow_marker [] (follow_text A B C) = [0x20] @ A @ [0x20, 0x2B, 0x20] @ B @ [0x20, 0x2B, 0x20] @ C"
  by (simp add: follow_text_def follow_marker_def)

lemma getRequireUp_follow_text:
  assumes "0x2B \<notin> set A" and "is_name B" and "is_name C"
  shows "getRequireUp (follow_text A B C) = [B, C]"
proof -
  have sp: "is_space 0x20" by (simp add: is_space_def)
  have 1: "tl (split_plus [] (([0x20] @ A @ [0x20]) @ 0x2B # ([0x20] @ B @ [0x20, 0x2B, 0x20] @ C)))
      = split_plus [] (dropWhile is_space ([0x20] @ B @ [0x20, 0x2B, 0x20] @ C))"
    using assms(1) by (intro split_plus_first) (simp add: is_space_def)
  have 2: "dropWhile is_space ([0x20] @ B @ [0x20, 0x2B, 0x20] @ C) = B @ [0x20] @ 0x2B # ([0x20] @ C)"
    using is_name_dropWhile [OF assms(2)] by simp
  have 3: "split_plus [] (B @ [0x20] @ 0x2B # ([0x20] @ C)) = (rev [] @ B) # split_plus [] (dropWhile is_space ([0x20] @ C))"
    using assms(2) sp by (intro split_plus_token) (auto simp: is_name_def)
  have 4: "dropWhile is_space ([0x20] @ C) = C"
    using is_name_dropWhile [OF assms(3), of "[]"] by simp
  have 5: "split_plus [] C = [C]"
    using assms(3) split_plus_no_plus [of C "[]"] by (simp add: is_name_def)
  show ?thesis
    unfolding getRequireUp_def Let_def replace_follow_text
    using 1 2 3 4 5 by simp
qed

section \<open>Invariants of a whole run\<close>

lemma doLottery_step_trace:
  "trace (snd (bind_io (doLottery n lot) (\<lambda>_. apiDelay 300) s)) = trace s @ [lottery_join lot, Delay 300]"
proof -
  obtain x where "fst (doLottery n lot s) = Inr x"
    using doLottery_no_throw [of n lot] by (auto simp: no_throw_def)
  then show ?thesis
    using doLottery_trace [of n lot s]
    by (cases "doLottery n lot s") (simp add: bind_io_def apiDelay_def)
qed

lemma doRedPacket_step_trace:
  "trace (snd (bind_io (doRedPacket n c) (\<lambda>_. apiDelay 200) s)) = trace s @ [red_packet_join c, Delay 200]"
proof -
  obtain x where "fst (doRedPacket n c s) = Inr x"
    using doRedPacket_no_throw [of n c] by (auto simp: no_throw_def)
  then show ?thesis
    using doRedPacket_trace [of n c s]
    by (cases "doRedPacket n c s") (simp add: bind_io_def apiDelay_def)
qed

lemma delay_kind: "is_delay e \<Longrightarrow> \<not> is_join e \<and> \<not> is_check e"
  by (cases e) simp_all

lemma fetch_kind: "is_fetch e \<Longrightarrow> \<not> is_join e \<and> \<not> is_check e"
  by (cases e) simp_all

lemma liveLotteryService_areas_pres:
  assumes lg: "\<And>s l. I s \<Longrightarrow> I (s\<lparr>logs := logs s @ [l]\<rparr>)"
    and ev: "\<And>s e. I s \<Longrightarrow> \<not> is_join e \<Longrightarrow> \<not> is_check e \<Longrightarrow> I (s\<lparr>trace := trace s @ [e]\<rparr>)"
    and ck: "\<And>s e. I s \<Longrightarrow> is_check e \<Longrightarrow> I (s\<lparr>trace := trace s @ [e]\<rparr>)"
    and join: "\<And>lot. preserves I (bind_io (doLottery n lot) (\<lambda>_. apiDelay 300))"
  shows "preserves I (liveLotteryService_areas cfg n areaList)"
proof -
  have dl: "\<And>s e. I s \<Longrightarrow> is_delay e \<Longrightarrow> I (s\<lparr>trace := trace s @ [e]\<rparr>)"
    using ev delay_kind by blast
  have ft: "\<And>s e. I s \<Longrightarrow> is_fetch e \<Longrightarrow> I (s\<lparr>trace := trace s @ [e]\<rparr>)"
    using ev fetch_kind by blast
  show ?thesis
    unfolding liveLotteryService_areas_def doLotteryArea_def Let_def doLotteryArea_rooms_def
    by (intro join pres checkLotteryRoomList_pres lg dl ft ck; simp)
qed

lemma liveRedPackService_areas_pres:
  assumes page: "\<And>a p page. preserves I (bind_io (getRedPacketRoom n a p page) (doRedPackArea_rooms n))"
  shows "preserves I (liveRedPackService_areas cfg n areaList)"
  unfolding liveRedPackService_areas_def doRedPackArea_def Let_def
  by (intro page pres)

lemma red_packet_page_pres:
  assumes lg: "\<And>s l. I s \<Longrightarrow> I (s\<lparr>logs := logs s @ [l]\<rparr>)"
    and ev: "\<And>s e. I s \<Longrightarrow> \<not> is_join e \<Longrightarrow> \<not> is_check e \<Longrightarrow> I (s\<lparr>trace := trace s @ [e]\<rparr>)"
    and ck: "\<And>s e. I s \<Longrightarrow> is_check e \<Longrightarrow> I (s\<lparr>trace := trace s @ [e]\<rparr>)"
    and join: "\<And>c. preserves I (bind_io (doRedPacket n c) (\<lambda>_. apiDelay 200))"
  shows "preserves I (bind_io (getRedPacketRoom n a p page) (doRedPackArea_rooms n))"
proof -
  have dl: "\<And>s e. I s \<Longrightarrow> is_delay e \<Longrightarrow> I (s\<lparr>trace := trace s @ [e]\<rparr>)"
    using ev delay_kind by blast
  have ft: "\<And>s e. I s \<Longrightarrow> is_fetch e \<Longrightarrow> I (s\<lparr>trace := trace s @ [e]\<rparr>)"
    using ev fetch_kind by blast
  show ?thesis
    unfolding doRedPackArea_rooms_def
    by (intro join pres getRedPacketRoom_pres lg dl ft ck; simp)
qed

lemma liveLotteryService_after_reset:
  "liveLotteryService cfg n s =
     bind_io (getLiveArea n) (\<lambda>areaList.
       bind_io (liveLotteryService_areas cfg n areaList) (\<lambda>_. get_newFollowUp))
       (snd (reset_newFollowUp s))"
  by (simp add: liveLotteryService_def bind_io_def reset_newFollowUp_def)

lemma liveRedPackService_after_reset:
  "liveRedPackService cfg n s =
     bind_io (getLiveArea n) (\<lambda>areaList.
       bind_io (liveRedPackService_areas cfg n areaList) (\<lambda>_. get_newFollowUp))
       (snd (reset_newFollowUp s))"
  by (simp add: liveRedPackService_def bind_io_def reset_newFollowUp_def)

lemma liveLotteryService_inv:
  assumes lg: "\<And>s l. I s \<Longrightarrow> I (s\<lparr>logs := logs s @ [l]\<rparr>)"
    and ev: "\<And>s e. I s \<Longrightarrow> \<not> is_join e \<Longrightarrow> \<not> is_check e \<Longrightarrow> I (s\<lparr>trace := trace s @ [e]\<rparr>)"
    and ck: "\<And>s e. I s \<Longrightarrow> is_check e \<Longrightarrow> I (s\<lparr>trace := trace s @ [e]\<rparr>)"
    and join: "\<And>lot. preserves I (bind_io (doLottery n lot) (\<lambda>_. apiDelay 300))"
    and init: "I (snd (reset_newFollowUp s))"
  shows "I (snd (liveLotteryService cfg n s))"
proof -
  have ft: "\<And>s e. I s \<Longrightarrow> is_fetch e \<Longrightarrow> I (s\<lparr>trace := trace s @ [e]\<rparr>)"
    using ev fetch_kind by blast
  have "preserves I (bind_io (getLiveArea n) (\<lambda>areaList.
       bind_io (liveLotteryService_areas cfg n areaList) (\<lambda>_. get_newFollowUp)))"
    by (intro pres getLiveArea_pres liveLotteryService_areas_pres lg ft ev ck join; simp)
  then show ?thesis
    using init unfolding liveLotteryService_after_reset preserves_def by blast
qed

lemma liveRedPackService_inv:
  assumes lg: "\<And>s l. I s \<Longrightarrow> I (s\<lparr>logs := logs s @ [l]\<rparr>)"
    and ev: "\<And>s e. I s \<Longrightarrow> \<not> is_join e \<Longrightarrow> \<not> is_check e \<Longrightarrow> I (s\<lparr>trace := trace s @ [e]\<rparr>)"
    and page: "\<And>a p page. preserves I (bind_io (getRedPacketRoom n a p page) (doRedPackArea_rooms n))"
    and init: "I (snd (reset_newFollowUp s))"
  shows "I (snd (liveRedPackService cfg n s))"
proof -
  have ft: "\<And>s e. I s \<Longrightarrow> is_fetch e \<Longrightarrow> I (s\<lparr>trace := trace s @ [e]\<rparr>)"
    using ev fetch_kind by blast
  have "preserves I (bind_io (getLiveArea n) (\<lambda>areaList.
       bind_io (liveRedPackService_areas cfg n areaList) (\<lambda>_. get_newFollowUp)))"
    by (intro pres getLiveArea_pres liveRedPackService_areas_pres lg ft page; simp)
  then show ?thesis
    using init unfolding liveRedPackService_after_reset preserves_def by blast
qed

subsection \<open>Arrays allocated before a run\<close>

definition frame :: "nat \<Rightarrow> (nat \<Rightarrow> ident list) \<Rightarrow> state \<Rightarrow> bool" where
  "frame n0 h0 s \<longleftrightarrow> newFollowUp s = Some n0 \<and> nextRef s = Suc n0 \<and> (\<forall>a<n0. heap s a = h0 a)"

lemma frame_pushIfNotExist:
  "preserves (frame n0 h0) (bind_io get_newFollowUp (\<lambda>array. pushIfNotExist array x))"
  by (simp add: preserves_def frame_def bind_io_def get_newFollowUp_def pushIfNotExist_def array_push_def)

lemma frame_array_push:
  "preserves (frame n0 h0) (bind_io get_newFollowUp (\<lambda>array. array_push array x))"
  by (simp add: preserves_def frame_def bind_io_def get_newFollowUp_def array_push_def)

lemma frame_doLottery: "preserves (frame n0 h0) (doLottery n lot)"
  unfolding doLottery_def
  by (intro frame_pushIfNotExist pres leaf; simp add: frame_def)

lemma frame_doRedPacket: "preserves (frame n0 h0) (doRedPacket n c)"
  unfolding doRedPacket_def
  by (intro frame_array_push pres leaf; simp add: frame_def)

lemma frame_liveLotteryService:
  "frame (nextRef s) (heap s) (snd (liveLotteryService cfg n s))"
proof (rule liveLotteryService_inv)
  show "frame (nextRef s) (heap s) (snd (reset_newFollowUp s))"
    by (simp add: frame_def reset_newFollowUp_def)
  show "\<And>lot. preserves (frame (nextRef s) (heap s)) (bind_io (doLottery n lot) (\<lambda>_. apiDelay 300))"
    by (intro pres frame_doLottery leaf; simp add: frame_def)
qed (simp_all add: frame_def)

lemma frame_liveRedPackService:
  "frame (nextRef s) (heap s) (snd (liveRedPackService cfg n s))"
proof (rule liveRedPackService_inv)
  show "frame (nextRef s) (heap s) (snd (reset_newFollowUp s))"
    by (simp add: frame_def reset_newFollowUp_def)
  show "\<And>a p page. preserves (frame (nextRef s) (heap s))
          (bind_io (getRedPacketRoom n a p page) (doRedPackArea_rooms n))"
    by (intro red_packet_page_pres pres frame_doRedPacket leaf; simp add: frame_def)
qed (simp_all add: frame_def)

lemma service_result:
  assumes "fst (bind_io (getLiveArea n) (\<lambda>areaList. bind_io (m areaList) (\<lambda>_. get_newFollowUp)) s) = Inr r"
  shows "r = newFollowUp (snd (bind_io (getLiveArea n) (\<lambda>areaList. bind_io (m areaList) (\<lambda>_. get_newFollowUp)) s))"
proof (cases "getLiveArea n s")
  case (Pair x s1)
  show ?thesis
  proof (cases x)
    case (Inl e)
    then show ?thesis using assms Pair by (simp add: bind_io_def)
  next
    case (Inr al)
    show ?thesis
    proof (cases "m al s1")
      case (Pair y s2)
      then show ?thesis
        using assms \<open>getLiveArea n s = (x, s1)\<close> Inr
        by (cases y) (simp_all add: bind_io_def get_newFollowUp_def)
    qed
  qed
qed

lemma liveLotteryService_result:
  "fst (liveLotteryService cfg n s) = Inr r \<Longrightarrow> r = Some (nextRef s)"
  using service_result [of n "liveLotteryService_areas cfg n" "snd (reset_newFollowUp s)" r]
    frame_liveLotteryService [of s cfg n]
  by (simp add: liveLotteryService_after_reset frame_def)

lemma liveRedPackService_result:
  "fst (liveRedPackService cfg n s) = Inr r \<Longrightarrow> r = Some (nextRef s)"
  using service_result [of n "liveRedPackService_areas cfg n" "snd (reset_newFollowUp s)" r]
    frame_liveRedPackService [of s cfg n]
  by (simp add: liveRedPackService_after_reset frame_def)

subsection \<open>The accumulator of a lottery run holds no entry twice\<close>

definition no_duplicates :: "nat \<Rightarrow> state \<Rightarrow> bool" where
  "no_duplicates a s \<longleftrightarrow> newFollowUp s = Some a \<and> distinct (heap s a)"

lemma no_duplicates_pushIfNotExist:
  "preserves (no_duplicates a) (bind_io get_newFollowUp (\<lambda>array. pushIfNotExist array x))"
  by (simp add: preserves_def no_duplicates_def bind_io_def get_newFollowUp_def pushIfNotExist_def
      array_push_def)

lemma no_duplicates_doLottery: "preserves (no_duplicates a) (doLottery n lot)"
  unfolding doLottery_def
  by (intro no_duplicates_pushIfNotExist pres leaf; simp add: no_duplicates_def)

lemma liveLotteryService_distinct:
  assumes "fst (liveLotteryService cfg n s) = Inr (Some a)"
  shows "distinct (heap (snd (liveLotteryService cfg n s)) a)"
proof -
  have a: "a = nextRef s" using liveLotteryService_result [OF assms] by simp
  have "no_duplicates (nextRef s) (snd (liveLotteryService cfg n s))"
  proof (rule liveLotteryService_inv)
    show "no_duplicates (nextRef s) (snd (reset_newFollowUp s))"
      by (simp add: no_duplicates_def reset_newFollowUp_def)
    show "\<And>lot. preserves (no_duplicates (nextRef s)) (bind_io (doLottery n lot) (\<lambda>_. apiDelay 300))"
      by (intro pres no_duplicates_doLottery leaf; simp add: no_duplicates_def)
  qed (simp_all add: no_duplicates_def)
  then show ?thesis by (simp add: a no_duplicates_def)
qed

subsection \<open>The delay that follows a join\<close>

text \<open>The fixed delay that goes with a join request: 300 ms for a lottery, 200 ms for a red
  packet.\<close>

fun pace_of :: "event \<Rightarrow> nat option" where
  "pace_of (JoinLottery i g k) = Some 300"
| "pace_of (JoinRedPacket r l u) = Some 200"
| "pace_of e = None"

text \<open>Every join request of the list is followed at once by its delay.\<close>

fun paced_after :: "event list \<Rightarrow> bool" where
  "paced_after [] = True"
| "paced_after (e # es) =
     ((case pace_of e of None \<Rightarrow> True | Some ms \<Rightarrow> take 1 es = [Delay ms]) \<and> paced_after es)"

text \<open>Every join request of the list comes at once after its delay; the first argument is
  the operation before the list, if there is one.\<close>

fun paced_before :: "event option \<Rightarrow> event list \<Rightarrow> bool" where
  "paced_before prev [] = True"
| "paced_before prev (e # es) =
     ((case pace_of e of None \<Rightarrow> True | Some ms \<Rightarrow> prev = Some (Delay ms)) \<and>
      paced_before (Some e) es)"

lemma pace_of_join: "pace_of e = None \<longleftrightarrow> \<not> is_join e"
  by (cases e) simp_all

lemma paced_after_snoc:
  "paced_after tr \<Longrightarrow> pace_of e = None \<Longrightarrow> paced_after (tr @ [e])"
proof (induction tr)
  case Nil
  then show ?case by simp
next
  case (Cons x xs)
  then show ?case by (cases xs) (auto split: option.splits)
qed

lemma paced_after_join:
  "paced_after tr \<Longrightarrow> pace_of j = Some ms \<Longrightarrow> paced_after (tr @ [j, Delay ms])"
proof (induction tr)
  case Nil
  then show ?case by simp
next
  case (Cons x xs)
  then show ?case by (cases xs) (auto split: option.splits)
qed

lemma paced_after_nth:
  "paced_after tr \<Longrightarrow> i < length tr \<Longrightarrow> pace_of (tr ! i) = Some ms \<Longrightarrow>
   Suc i < length tr \<and> tr ! Suc i = Delay ms"
proof (induction tr arbitrary: i)
  case Nil
  then show ?case by simp
next
  case (Cons x xs)
  show ?case
  proof (cases i)
    case 0
    then show ?thesis using Cons.prems by (cases xs) auto
  next
    case (Suc k)
    then show ?thesis using Cons.IH [of k] Cons.prems by simp
  qed
qed

definition paced_since :: "event list \<Rightarrow> state \<Rightarrow> bool" where
  "paced_since t0 s \<longleftrightarrow> (\<exists>tr. trace s = t0 @ tr \<and> paced_after tr)"

lemma paced_since_event:
  "paced_since t0 s \<Longrightarrow> \<not> is_join e \<Longrightarrow> paced_since t0 (s\<lparr>trace := trace s @ [e]\<rparr>)"
  unfolding paced_since_def using paced_after_snoc pace_of_join by fastforce

lemma paced_since_doLottery:
  "preserves (paced_since t0) (bind_io (doLottery n lot) (\<lambda>_. apiDelay 300))"
  unfolding preserves_def paced_since_def
proof (intro allI impI)
  fix s :: state assume "\<exists>tr. trace s = t0 @ tr \<and> paced_after tr"
  then obtain tr where tr: "trace s = t0 @ tr" "paced_after tr" by blast
  have "paced_after (tr @ [lottery_join lot, Delay 300])"
    using tr(2) by (rule paced_after_join) (simp add: lottery_join_def)
  then show "\<exists>tr. trace (snd (bind_io (doLottery n lot) (\<lambda>_. apiDelay 300) s)) = t0 @ tr \<and> paced_after tr"
    using tr(1) by (simp add: doLottery_step_trace)
qed

lemma paced_since_doRedPacket:
  "preserves (paced_since t0) (bind_io (doRedPacket n c) (\<lambda>_. apiDelay 200))"
  unfolding preserves_def paced_since_def
proof (intro allI impI)
  fix s :: state assume "\<exists>tr. trace s = t0 @ tr \<and> paced_after tr"
  then obtain tr where tr: "trace s = t0 @ tr" "paced_after tr" by blast
  have "paced_after (tr @ [red_packet_join c, Delay 200])"
    using tr(2) by (rule paced_after_join) (simp add: red_packet_join_def)
  then show "\<exists>tr. trace (snd (bind_io (doRedPacket n c) (\<lambda>_. apiDelay 200) s)) = t0 @ tr \<and> paced_after tr"
    using tr(1) by (simp add: doRedPacket_step_trace)
qed

lemma paced_since_liveLotteryService:
  "paced_since (trace s) (snd (liveLotteryService cfg n s))"
proof (rule liveLotteryService_inv)
  show "paced_since (trace s) (snd (reset_newFollowUp s))"
    by (simp add: paced_since_def reset_newFollowUp_def)
  show "\<And>lot. preserves (paced_since (trace s)) (bind_io (doLottery n lot) (\<lambda>_. apiDelay 300))"
    by (rule paced_since_doLottery)
  show "\<And>s' l. paced_since (trace s) s' \<Longrightarrow> paced_since (trace s) (s'\<lparr>logs := logs s' @ [l]\<rparr>)"
    by (simp add: paced_since_def)
  show "\<And>s' e. paced_since (trace s) s' \<Longrightarrow> \<not> is_join e \<Longrightarrow> \<not> is_check e \<Longrightarrow>
      paced_since (trace s) (s'\<lparr>trace := trace s' @ [e]\<rparr>)"
    by (rule paced_since_event)
  show "\<And>s' e. paced_since (trace s) s' \<Longrightarrow> is_check e \<Longrightarrow>
      paced_since (trace s) (s'\<lparr>trace := trace s' @ [e]\<rparr>)"
    by (rule paced_since_event) (auto elim: is_check.elims is_join.elims)
qed

lemma paced_since_liveRedPackService:
  "paced_since (trace s) (snd (liveRedPackService cfg n s))"
proof (rule liveRedPackService_inv)
  show "paced_since (trace s) (snd (reset_newFollowUp s))"
    by (simp add: paced_since_def reset_newFollowUp_def)
  have ev: "\<And>s' e. paced_since (trace s) s' \<Longrightarrow> \<not> is_join e \<Longrightarrow> \<not> is_check e \<Longrightarrow>
      paced_since (trace s) (s'\<lparr>trace := trace s' @ [e]\<rparr>)"
    by (rule paced_since_event)
  have ck: "\<And>s' e. paced_since (trace s) s' \<Longrightarrow> is_check e \<Longrightarrow>
      paced_since (trace s) (s'\<lparr>trace := trace s' @ [e]\<rparr>)"
    by (rule paced_since_event) (auto elim: is_check.elims is_join.elims)
  have lg: "\<And>s' l. paced_since (trace s) s' \<Longrightarrow> paced_since (trace s) (s'\<lparr>logs := logs s' @ [l]\<rparr>)"
    by (simp add: paced_since_def)
  show "\<And>s' l. paced_since (trace s) s' \<Longrightarrow> paced_since (trace s) (s'\<lparr>logs := logs s' @ [l]\<rparr>)"
    by (rule lg)
  show "\<And>s' e. paced_since (trace s) s' \<Longrightarrow> \<not> is_join e \<Longrightarrow> \<not> is_check e \<Longrightarrow>
      paced_since (trace s) (s'\<lparr>trace := trace s' @ [e]\<rparr>)"
    by (rule ev)
  show "\<And>a p page. preserves (paced_since (trace s))
          (bind_io (getRedPacketRoom n a p page) (doRedPackArea_rooms n))"
    by (rule red_packet_page_pres [OF lg ev ck paced_since_doRedPacket])
qed

subsection \<open>Runs in sequence\<close>

text \<open>A run of one of the two entry points, and a sequence of runs, each started in the state
  the run before it left, whether that run returned or threw.\<close>

datatype run = LotteryRun TaskConfig net | RedPackRun TaskConfig net

fun run_of :: "run \<Rightarrow> nat option io" where
  "run_of (LotteryRun cfg n) = liveLotteryService cfg n"
| "run_of (RedPackRun cfg n) = liveRedPackService cfg n"

primrec runs :: "run list \<Rightarrow> state \<Rightarrow> state" where
  "runs [] s = s"
| "runs (r # rs) s = runs rs (snd (run_of r s))"

lemma frame_run_of: "frame (nextRef s) (heap s) (snd (run_of r s))"
  by (cases r) (simp_all add: frame_liveLotteryService frame_liveRedPackService)

lemma run_of_result: "fst (run_of r s) = Inr x \<Longrightarrow> x = Some (nextRef s)"
  by (cases r) (simp_all add: liveLotteryService_result liveRedPackService_result)

lemma run_of_heap:
  "a < nextRef s \<Longrightarrow> heap (snd (run_of r s)) a = heap s a"
  using frame_run_of [of s r] by (simp add: frame_def)

lemma run_of_nextRef: "nextRef (snd (run_of r s)) = Suc (nextRef s)"
  using frame_run_of [of s r] by (simp add: frame_def)

lemma run_of_accumulator: "newFollowUp (snd (run_of r s)) = Some (nextRef s)"
  using frame_run_of [of s r] by (simp add: frame_def)

lemma runs_heap:
  "a < nextRef s \<Longrightarrow> heap (runs rs s) a = heap s a \<and> nextRef s \<le> nextRef (runs rs s)"
proof (induction rs arbitrary: s)
  case Nil
  show ?case by simp
next
  case (Cons r rs)
  have "a < nextRef (snd (run_of r s))" using Cons.prems by (simp add: run_of_nextRef)
  from Cons.IH [OF this] show ?case
    using Cons.prems by (simp add: run_of_heap run_of_nextRef)
qed

section \<open>What an action sends\<close>

text \<open>An action that returns from every state, and the operations of a class among those it
  sends on the way.\<close>

definition issues :: "(event \<Rightarrow> bool) \<Rightarrow> 'a io \<Rightarrow> event list \<Rightarrow> bool" where
  "issues P m es \<longleftrightarrow>
     (\<forall>s. \<exists>x evs. fst (m s) = Inr x \<and> trace (snd (m s)) = trace s @ evs \<and> filter P evs = es)"

lemma issues_return: "issues P (return_io x) []"
  by (simp add: issues_def return_io_def)

lemma issues_bind:
  assumes "issues P m a" and "\<And>x. issues P (g x) b"
  shows "issues P (bind_io m g) (a @ b)"
  unfolding issues_def
proof
  fix s :: state
  obtain x e1 where 1: "fst (m s) = Inr x" "trace (snd (m s)) = trace s @ e1" "filter P e1 = a"
    using assms(1) unfolding issues_def by blast
  obtain y e2 where 2: "fst (g x (snd (m s))) = Inr y"
    "trace (snd (g x (snd (m s)))) = trace (snd (m s)) @ e2" "filter P e2 = b"
    using assms(2) [of x] unfolding issues_def by blast
  have "bind_io m g s = g x (snd (m s))"
    using 1(1) by (cases "m s") (simp add: bind_io_def)
  then show "\<exists>x evs. fst (bind_io m g s) = Inr x \<and> trace (snd (bind_io m g s)) = trace s @ evs \<and>
      filter P evs = a @ b"
    using 1 2 by (intro exI [of _ y] exI [of _ "e1 @ e2"]) simp
qed

text \<open>The same when the first action returns one value from every state.\<close>

lemma issues_bind_value:
  assumes "issues P m a" and "\<And>s. fst (m s) = Inr v" and "issues P (g v) b"
  shows "issues P (bind_io m g) (a @ b)"
  unfolding issues_def
proof
  fix s :: state
  obtain x e1 where 1: "fst (m s) = Inr x" "trace (snd (m s)) = trace s @ e1" "filter P e1 = a"
    using assms(1) unfolding issues_def by blast
  have x: "x = v" using 1(1) assms(2) [of s] by simp
  obtain y e2 where 2: "fst (g v (snd (m s))) = Inr y"
    "trace (snd (g v (snd (m s)))) = trace (snd (m s)) @ e2" "filter P e2 = b"
    using assms(3) unfolding issues_def by blast
  have "bind_io m g s = g v (snd (m s))"
    using 1(1) x by (cases "m s") (simp add: bind_io_def)
  then show "\<exists>x evs. fst (bind_io m g s) = Inr x \<and> trace (snd (bind_io m g s)) = trace s @ evs \<and>
      filter P evs = a @ b"
    using 1 2 by (intro exI [of _ y] exI [of _ "e1 @ e2"]) simp
qed

lemma issues_for_of:
  assumes "\<And>x acc. x \<in> set xs \<Longrightarrow> issues P (body x acc) (g x)"
  shows "issues P (for_of body xs acc) (concat (map g xs))"
  using assms
proof (induction xs arbitrary: acc)
  case Nil
  show ?case by (simp add: issues_return)
next
  case (Cons x xs)
  have "issues P (bind_io (body x acc) (for_of body xs)) (g x @ concat (map g xs))"
    by (rule issues_bind) (simp_all add: Cons)
  then show ?case by simp
qed

lemma issues_exact:
  assumes "no_throw m" and "\<And>s. trace (snd (m s)) = trace s @ evs"
  shows "issues P m (filter P evs)"
  using assms unfolding issues_def no_throw_def by blast

lemma issues_apiDelay: "issues P (apiDelay ms) (filter P [Delay ms])"
  by (rule issues_exact) (simp_all add: no_throw_apiDelay apiDelay_def)

text \<open>The pages of an area that a run asks for, the rooms with the badge of the pipeline that
  they list when page \<open>page\<close> of the area is \<open>pg parentId areaId page\<close>, and the fetches of these
  pages.\<close>

definition pages_of :: "int option \<Rightarrow> int list" where
  "pages_of num = [1..(case num of None \<Rightarrow> 2 | Some k \<Rightarrow> k)]"

definition pages_are :: "net \<Rightarrow> (jsstring \<Rightarrow> jsstring \<Rightarrow> int \<Rightarrow> RoomPageData) \<Rightarrow> bool" where
  "pages_are n pg \<longleftrightarrow>
     (\<forall>h p a page. \<exists>code m. getLiveRoom n h p a page = Resp code (Data (pg p a page)) m)"

definition listed ::
  "lotType \<Rightarrow> (jsstring \<Rightarrow> jsstring \<Rightarrow> int \<Rightarrow> RoomPageData) \<Rightarrow> LiveAreaType list list \<Rightarrow> int option \<Rightarrow>
   LiveRoomList list" where
  "listed t pg areaList num =
     concat (map (\<lambda>areas. concat (map (\<lambda>area.
       concat (map (\<lambda>page. badge_rooms t (pg (parentId area) (areaId area) page)) (pages_of num)))
       areas)) areaList)"

definition page_fetches :: "LiveAreaType list list \<Rightarrow> int option \<Rightarrow> event list" where
  "page_fetches areaList num =
     concat (map (\<lambda>areas. concat (map (\<lambda>area.
       map (GetLiveRoom (parentId area) (areaId area)) (pages_of num)) areas)) areaList)"

lemma pages_are_resolve: "pages_are n pg \<Longrightarrow> pages_resolve n"
  unfolding pages_are_def pages_resolve_def by blast

lemma getLotteryRoomList_issues:
  assumes "pages_are n pg"
  shows "issues P (getLotteryRoomList n a p page t) (filter P [Delay 100, GetLiveRoom p a page])"
  unfolding issues_def
proof
  fix s :: state
  obtain code m where "getLiveRoom n (trace s @ [Delay 100]) p a page = Resp code (Data (pg p a page)) m"
    using assms unfolding pages_are_def by blast
  then show "\<exists>x evs. fst (getLotteryRoomList n a p page t s) = Inr x \<and>
      trace (snd (getLotteryRoomList n a p page t s)) = trace s @ evs \<and>
      filter P evs = filter P [Delay 100, GetLiveRoom p a page]"
    by (simp add: getLotteryRoomList_resolved)
qed

lemma getLotteryRoomList_value:
  assumes "pages_are n pg"
  shows "fst (getLotteryRoomList n a p page t s) = Inr (badge_rooms t (pg p a page))"
proof -
  obtain code m where "getLiveRoom n (trace s @ [Delay 100]) p a page = Resp code (Data (pg p a page)) m"
    using assms unfolding pages_are_def by blast
  then show ?thesis by (simp add: getLotteryRoomList_resolved)
qed

text \<open>A run whose fetch of the categories resolves with a payload: what it sends after the
  fetch is what the loops over the areas send.\<close>

lemma service_issues:
  assumes "getArea n (trace s) = Resp code (Data ad) m" and "issues P (loop (areas_of ad)) es"
  shows "\<exists>x evs.
     fst (bind_io (getLiveArea n) (\<lambda>areaList. bind_io (loop areaList) (\<lambda>_. get_newFollowUp)) s) = Inr x \<and>
     trace (snd (bind_io (getLiveArea n) (\<lambda>areaList. bind_io (loop areaList) (\<lambda>_. get_newFollowUp)) s))
       = trace s @ GetArea # evs \<and>
     filter P evs = es"
proof -
  define s1 where "s1 = s\<lparr>trace := trace s @ [GetArea],
        logs := logs s @ (if code \<noteq> 0 then [AreaFailed code m] else [])\<rparr>"
  have g: "getLiveArea n s = (Inr (areas_of ad), s1)"
    using getLiveArea_resolved [OF assms(1)] by (simp add: s1_def)
  obtain y evs where l: "fst (loop (areas_of ad) s1) = Inr y"
    "trace (snd (loop (areas_of ad) s1)) = trace s1 @ evs" "filter P evs = es"
    using assms(2) unfolding issues_def by blast
  have "bind_io (getLiveArea n) (\<lambda>areaList. bind_io (loop areaList) (\<lambda>_. get_newFollowUp)) s
      = get_newFollowUp (snd (loop (areas_of ad) s1))"
    using g l(1) by (cases "loop (areas_of ad) s1") (simp add: bind_io_def)
  then show ?thesis
    using l by (simp add: get_newFollowUp_def s1_def)
qed

section \<open>Red packets: which rooms are joined\<close>

text \<open>The first element of \<open>popularity_red_pocket\<close> in the answer to a red-packet check, when
  the answer has one.\<close>

fun first_entry :: "RedPacketData response \<Rightarrow> RedPocket option" where
  "first_entry (Resp code (Data d) message) =
     (case popularity_red_pocket d of Some (p # ps) \<Rightarrow> Some p | _ \<Rightarrow> None)"
| "first_entry r = None"

text \<open>The red-packet checks and joins of a room among the outbound operations.\<close>

fun is_check_of :: "int \<Rightarrow> event \<Rightarrow> bool" where
  "is_check_of r (CheckRedPacket room) = (room = r)"
| "is_check_of r e = False"

fun is_join_of :: "int \<Rightarrow> event \<Rightarrow> bool" where
  "is_join_of r (JoinRedPacket room l u) = (room = r)"
| "is_join_of r e = False"

definition checks_of :: "int \<Rightarrow> event list \<Rightarrow> nat" where
  "checks_of r t = length (filter (is_check_of r) t)"

definition joins_of :: "int \<Rightarrow> event list \<Rightarrow> nat" where
  "joins_of r t = length (filter (is_join_of r) t)"

lemma getRedPacketId_steps:
  "steps (\<lambda>s. trace s = t) (getRedPacketId n r) (\<lambda>s. trace s = t @ [CheckRedPacket r])"
  unfolding getRedPacketId_def
  apply (rule steps_try)
   apply (rule steps_bind_post)
    apply (rule steps_request)
   apply (intro pres)
  apply (rule preserves_return)
  done

lemma getRedPacketId_trace: "trace (snd (getRedPacketId n r s)) = trace s @ [CheckRedPacket r]"
  using getRedPacketId_steps [of "trace s" n r] by (simp add: steps_def)

lemma getRedPacketId_falsy:
  assumes "\<forall>p. first_entry (checkRedPacket n (trace s) r) = Some p \<longrightarrow> lot_status p = 2 \<or> RedPocket.lot_id p = 0"
  shows "fst (getRedPacketId n r s) = Inr None \<or> fst (getRedPacketId n r s) = Inr (Some 0)"
  using assms
proof (cases "checkRedPacket n (trace s) r")
  case (Throws e)
  then show ?thesis by (simp add: getRedPacketId_def io_defs Let_def)
next
  case (Resp code d m)
  then show ?thesis
    using assms
    by (cases d) (auto simp: getRedPacketId_def io_defs Let_def split: option.splits list.splits)
qed

lemma getRedPacketId_truthy:
  assumes "checkRedPacket n (trace s) r = Resp 0 (Data d) m" and "popularity_red_pocket d = Some (p # ps)"
    and "lot_status p \<noteq> 2" and "RedPocket.lot_id p \<noteq> 0"
  shows "fst (getRedPacketId n r s) = Inr (Some (RedPocket.lot_id p))"
  using assms by (simp add: getRedPacketId_def io_defs Let_def)

text \<open>The body of the loop of \<open>getRedPacketRoom\<close>, on a room whose check has been made.\<close>

lemma getRedPacketRoom_rooms_Cons:
  assumes "getRedPacketId n (roomid room) s = (Inr lotId, s1)"
  shows "for_of (\<lambda>room checkedRoomList.
        bind_io (getRedPacketId n (roomid room)) (\<lambda>lotId.
          if lotId \<noteq> None \<and> lotId \<noteq> Some 0 then
            bind_io (apiDelay 100) (\<lambda>_.
            return_io (checkedRoomList @
              [\<lparr>uid = LiveRoomList.uid room, uname = LiveRoomList.uname room,
                lot_id = the lotId, room_id = roomid room\<rparr>]))
          else return_io checkedRoomList)) (room # rest) acc s
      = for_of (\<lambda>room checkedRoomList.
        bind_io (getRedPacketId n (roomid room)) (\<lambda>lotId.
          if lotId \<noteq> None \<and> lotId \<noteq> Some 0 then
            bind_io (apiDelay 100) (\<lambda>_.
            return_io (checkedRoomList @
              [\<lparr>uid = LiveRoomList.uid room, uname = LiveRoomList.uname room,
                lot_id = the lotId, room_id = roomid room\<rparr>]))
          else return_io checkedRoomList)) rest
         (if lotId \<noteq> None \<and> lotId \<noteq> Some 0
          then acc @ [\<lparr>uid = LiveRoomList.uid room, uname = LiveRoomList.uname room,
                lot_id = the lotId, room_id = roomid room\<rparr>]
          else acc)
         (if lotId \<noteq> None \<and> lotId \<noteq> Some 0 then s1\<lparr>trace := trace s1 @ [Delay 100]\<rparr> else s1)"
  using assms by (simp add: io_defs)

text \<open>What the loop of \<open>getRedPacketRoom\<close> does for one room id \<open>r\<close>: it returns, it makes one check
  for each listing of the room and no join; the candidates of the room stay as they were when
  every check of the room finds a closed entry or a zero \<open>lot_id\<close>, and grow by one for each
  listing when every check finds an open entry with a \<open>lot_id\<close> other than zero.\<close>

lemma getRedPacketRoom_rooms_spec:
  fixes acc :: "RedPacket list"
  shows "\<exists>cands s'.
     for_of (\<lambda>room checkedRoomList.
        bind_io (getRedPacketId n (roomid room)) (\<lambda>lotId.
          if lotId \<noteq> None \<and> lotId \<noteq> Some 0 then
            bind_io (apiDelay 100) (\<lambda>_.
            return_io (checkedRoomList @
              [\<lparr>uid = LiveRoomList.uid room, uname = LiveRoomList.uname room,
                lot_id = the lotId, room_id = roomid room\<rparr>]))
          else return_io checkedRoomList)) roomList acc s = (Inr cands, s') \<and>
     joins_of r (trace s') = joins_of r (trace s) \<and>
     checks_of r (trace s') = checks_of r (trace s) + length (filter (\<lambda>room. roomid room = r) roomList) \<and>
     ((\<forall>h p. first_entry (checkRedPacket n h r) = Some p \<longrightarrow> lot_status p = 2 \<or> RedPocket.lot_id p = 0) \<longrightarrow>
        filter (\<lambda>c. room_id c = r) cands = filter (\<lambda>c. room_id c = r) acc) \<and>
     ((\<forall>h. \<exists>d m p ps. checkRedPacket n h r = Resp 0 (Data d) m \<and> popularity_red_pocket d = Some (p # ps) \<and>
            lot_status p \<noteq> 2 \<and> RedPocket.lot_id p \<noteq> 0) \<longrightarrow>
        length (filter (\<lambda>c. room_id c = r) cands) =
        length (filter (\<lambda>c. room_id c = r) acc) + length (filter (\<lambda>room. roomid room = r) roomList)) \<and>
     (\<forall>c\<in>set cands. c \<in> set acc \<or> lot_id c \<noteq> 0)"
proof (induction roomList arbitrary: acc s)
  case Nil
  show ?case by (simp add: return_io_def)
next
  case (Cons room rest)
  obtain lotId where f: "fst (getRedPacketId n (roomid room) s) = Inr lotId"
    using getRedPacketId_no_throw [of n "roomid room"] by (auto simp: no_throw_def)
  define s1 where "s1 = snd (getRedPacketId n (roomid room) s)"
  have g: "getRedPacketId n (roomid room) s = (Inr lotId, s1)"
    using f by (simp add: s1_def prod_eq_iff)
  have t1: "trace s1 = trace s @ [CheckRedPacket (roomid room)]"
    by (simp add: s1_def getRedPacketId_trace)
  define acc' where "acc' = (if lotId \<noteq> None \<and> lotId \<noteq> Some 0
          then acc @ [\<lparr>uid = LiveRoomList.uid room, uname = LiveRoomList.uname room,
                lot_id = the lotId, room_id = roomid room\<rparr>]
          else acc)"
  define s2 where "s2 = (if lotId \<noteq> None \<and> lotId \<noteq> Some 0 then s1\<lparr>trace := trace s1 @ [Delay 100]\<rparr> else s1)"
  have j2: "joins_of r (trace s2) = joins_of r (trace s)"
    by (simp add: s2_def t1 joins_of_def)
  have c2: "checks_of r (trace s2) = checks_of r (trace s) + (if roomid room = r then 1 else 0)"
    by (simp add: s2_def t1 checks_of_def)
  have falsy: "filter (\<lambda>c. room_id c = r) acc' = filter (\<lambda>c. room_id c = r) acc"
    if "\<forall>h p. first_entry (checkRedPacket n h r) = Some p \<longrightarrow> lot_status p = 2 \<or> RedPocket.lot_id p = 0"
  proof (cases "roomid room = r")
    case True
    have "fst (getRedPacketId n r s) = Inr None \<or> fst (getRedPacketId n r s) = Inr (Some 0)"
      using that by (intro getRedPacketId_falsy) blast
    then show ?thesis using f True by (auto simp: acc'_def)
  next
    case False
    then show ?thesis by (simp add: acc'_def)
  qed
  have truthy: "length (filter (\<lambda>c. room_id c = r) acc') =
      length (filter (\<lambda>c. room_id c = r) acc) + (if roomid room = r then 1 else 0)"
    if open_entry: "\<forall>h. \<exists>d m p ps. checkRedPacket n h r = Resp 0 (Data d) m \<and> popularity_red_pocket d = Some (p # ps) \<and>
            lot_status p \<noteq> 2 \<and> RedPocket.lot_id p \<noteq> 0"
  proof (cases "roomid room = r")
    case True
    obtain d m p ps where "checkRedPacket n (trace s) r = Resp 0 (Data d) m" "popularity_red_pocket d = Some (p # ps)"
      "lot_status p \<noteq> 2" "RedPocket.lot_id p \<noteq> 0"
      using open_entry by blast
    then have "fst (getRedPacketId n r s) = Inr (Some (RedPocket.lot_id p))" "RedPocket.lot_id p \<noteq> 0"
      using getRedPacketId_truthy by blast+
    then show ?thesis using f True by (auto simp: acc'_def)
  next
    case False
    then show ?thesis by (simp add: acc'_def)
  qed
  have new: "\<forall>c\<in>set acc'. c \<in> set acc \<or> lot_id c \<noteq> 0"
    by (auto simp: acc'_def)
  from Cons.IH [of acc' s2] obtain cands s' where
    ih: "for_of (\<lambda>room checkedRoomList.
        bind_io (getRedPacketId n (roomid room)) (\<lambda>lotId.
          if lotId \<noteq> None \<and> lotId \<noteq> Some 0 then
            bind_io (apiDelay 100) (\<lambda>_.
            return_io (checkedRoomList @
              [\<lparr>uid = LiveRoomList.uid room, uname = LiveRoomList.uname room,
                lot_id = the lotId, room_id = roomid room\<rparr>]))
          else return_io checkedRoomList)) rest acc' s2 = (Inr cands, s')"
    and ihj: "joins_of r (trace s') = joins_of r (trace s2)"
    and ihc: "checks_of r (trace s') = checks_of r (trace s2) + length (filter (\<lambda>room. roomid room = r) rest)"
    and ihf: "(\<forall>h p. first_entry (checkRedPacket n h r) = Some p \<longrightarrow> lot_status p = 2 \<or> RedPocket.lot_id p = 0) \<longrightarrow>
        filter (\<lambda>c. room_id c = r) cands = filter (\<lambda>c. room_id c = r) acc'"
    and iht: "(\<forall>h. \<exists>d m p ps. checkRedPacket n h r = Resp 0 (Data d) m \<and> popularity_red_pocket d = Some (p # ps) \<and>
            lot_status p \<noteq> 2 \<and> RedPocket.lot_id p \<noteq> 0) \<longrightarrow>
        length (filter (\<lambda>c. room_id c = r) cands) =
        length (filter (\<lambda>c. room_id c = r) acc') + length (filter (\<lambda>room. roomid room = r) rest)"
    and ihn: "\<forall>c\<in>set cands. c \<in> set acc' \<or> lot_id c \<noteq> 0"
    by blast
  show ?case
    unfolding getRedPacketRoom_rooms_Cons [OF g]
    apply (rule exI [of _ cands], rule exI [of _ s'])
    using ih ihj ihc ihf iht ihn j2 c2 falsy truthy new
    by (auto simp: acc'_def s2_def)
qed

lemma getRedPacketRoom_rooms_spec0:
  "\<exists>cands s'.
     getRedPacketRoom_rooms n roomList s = (Inr cands, s') \<and>
     joins_of r (trace s') = joins_of r (trace s) \<and>
     checks_of r (trace s') = checks_of r (trace s) + length (filter (\<lambda>room. roomid room = r) roomList) \<and>
     ((\<forall>h p. first_entry (checkRedPacket n h r) = Some p \<longrightarrow> lot_status p = 2 \<or> RedPocket.lot_id p = 0) \<longrightarrow>
        (\<forall>c\<in>set cands. room_id c \<noteq> r)) \<and>
     ((\<forall>h. \<exists>d m p ps. checkRedPacket n h r = Resp 0 (Data d) m \<and> popularity_red_pocket d = Some (p # ps) \<and>
            lot_status p \<noteq> 2 \<and> RedPocket.lot_id p \<noteq> 0) \<longrightarrow>
        length (filter (\<lambda>c. room_id c = r) cands) = length (filter (\<lambda>room. roomid room = r) roomList)) \<and>
     (\<forall>c\<in>set cands. lot_id c \<noteq> 0)"
  using getRedPacketRoom_rooms_spec [of n roomList "[]" s r]
  unfolding getRedPacketRoom_rooms_def by (simp add: filter_empty_conv)

lemma for_of_Cons_returns:
  "fst (body x acc s) = Inr acc' \<Longrightarrow>
   for_of body (x # xs) acc s = for_of body xs acc' (snd (body x acc s))"
  by (cases "body x acc s") (simp add: bind_io_def)

lemma doRedPacket_step_returns:
  "fst (bind_io (doRedPacket n c) (\<lambda>_. apiDelay 200) s) = Inr ()"
proof -
  have "no_throw (bind_io (doRedPacket n c) (\<lambda>_. apiDelay 200))"
    by (intro nothrow doRedPacket_no_throw)
  then show ?thesis by (auto simp: no_throw_def)
qed

lemma doLottery_step_returns:
  "fst (bind_io (doLottery n lot) (\<lambda>_. apiDelay 300) s) = Inr ()"
proof -
  have "no_throw (bind_io (doLottery n lot) (\<lambda>_. apiDelay 300))"
    by (intro nothrow doLottery_no_throw)
  then show ?thesis by (auto simp: no_throw_def)
qed

lemma doRedPackArea_rooms_trace:
  "trace (snd (doRedPackArea_rooms n cands s)) =
     trace s @ concat (map (\<lambda>c. [red_packet_join c, Delay 200]) cands)"
  unfolding doRedPackArea_rooms_def
proof (induction cands arbitrary: s)
  case Nil
  show ?case by (simp add: return_io_def)
next
  case (Cons c cs)
  let ?B = "\<lambda>room (_::unit). bind_io (doRedPacket n room) (\<lambda>_. apiDelay 200)"
  have "for_of ?B (c # cs) () s = for_of ?B cs () (snd (?B c () s))"
    by (rule for_of_Cons_returns) (rule doRedPacket_step_returns)
  then show ?case
    using Cons.IH [of "snd (?B c () s)"] by (simp add: doRedPacket_step_trace)
qed

lemma doLotteryArea_rooms_trace:
  "trace (snd (doLotteryArea_rooms n rooms s)) =
     trace s @ concat (map (\<lambda>lot. [lottery_join lot, Delay 300]) rooms)"
  unfolding doLotteryArea_rooms_def
proof (induction rooms arbitrary: s)
  case Nil
  show ?case by (simp add: return_io_def)
next
  case (Cons c cs)
  let ?B = "\<lambda>room (_::unit). bind_io (doLottery n room) (\<lambda>_. apiDelay 300)"
  have "for_of ?B (c # cs) () s = for_of ?B cs () (snd (?B c () s))"
    by (rule for_of_Cons_returns) (rule doLottery_step_returns)
  then show ?case
    using Cons.IH [of "snd (?B c () s)"] by (simp add: doLottery_step_trace)
qed

lemma joins_of_join_loop:
  "joins_of r (t @ concat (map (\<lambda>c. [red_packet_join c, Delay 200]) cands)) =
     joins_of r t + length (filter (\<lambda>c. room_id c = r) cands)"
  by (induction cands arbitrary: t) (auto simp: joins_of_def red_packet_join_def)

lemma checks_of_join_loop:
  "checks_of r (t @ concat (map (\<lambda>c. [red_packet_join c, Delay 200]) cands)) = checks_of r t"
  by (induction cands arbitrary: t) (auto simp: checks_of_def red_packet_join_def)

lemma is_join_of_join: "is_join_of r e \<Longrightarrow> is_join e"
  by (cases e) simp_all

lemma is_check_of_check: "is_check_of r e \<Longrightarrow> is_check e"
  by (cases e) simp_all

lemma counts_snoc:
  "\<not> is_join e \<Longrightarrow> joins_of r (t @ [e]) = joins_of r t"
  "\<not> is_check e \<Longrightarrow> checks_of r (t @ [e]) = checks_of r t"
  using is_join_of_join is_check_of_check by (auto simp: joins_of_def checks_of_def)

lemma getLotteryRoomList_counts:
  "joins_of r (trace (snd (getLotteryRoomList n a p page t s))) = joins_of r (trace s) \<and>
   checks_of r (trace (snd (getLotteryRoomList n a p page t s))) = checks_of r (trace s)"
proof -
  have "preserves (\<lambda>s'. joins_of r (trace s') = joins_of r (trace s) \<and>
                        checks_of r (trace s') = checks_of r (trace s))
          (getLotteryRoomList n a p page t)"
    by (rule getLotteryRoomList_pres) (simp_all add: counts_snoc delay_kind fetch_kind)
  then show ?thesis by (simp add: preserves_def)
qed

text \<open>One page of the red-packet pipeline, for one room id.\<close>

lemma red_packet_page_counts:
  fixes s :: state and n :: net and a p :: jsstring and page :: int
  defines "s' \<equiv> snd (bind_io (getRedPacketRoom n a p page) (doRedPackArea_rooms n) s)"
  shows "((\<forall>h q. first_entry (checkRedPacket n h r) = Some q \<longrightarrow> lot_status q = 2 \<or> RedPocket.lot_id q = 0) \<longrightarrow>
            joins_of r (trace s') = joins_of r (trace s)) \<and>
         ((\<forall>h. \<exists>d m q qs. checkRedPacket n h r = Resp 0 (Data d) m \<and> popularity_red_pocket d = Some (q # qs) \<and>
              lot_status q \<noteq> 2 \<and> RedPocket.lot_id q \<noteq> 0) \<longrightarrow>
            joins_of r (trace s') + checks_of r (trace s) = joins_of r (trace s) + checks_of r (trace s'))"
proof (cases "getLotteryRoomList n a p page redPack s")
  case (Pair x s1)
  have c1: "joins_of r (trace s1) = joins_of r (trace s)" "checks_of r (trace s1) = checks_of r (trace s)"
    using getLotteryRoomList_counts [of r n a p page redPack s] Pair by simp_all
  show ?thesis
  proof (cases x)
    case (Inl e)
    then have "s' = s1" using Pair by (simp add: s'_def getRedPacketRoom_def bind_io_def)
    then show ?thesis using c1 by simp
  next
    case (Inr roomList)
    obtain cands s2 where
      l: "getRedPacketRoom_rooms n roomList s1 = (Inr cands, s2)"
      and j: "joins_of r (trace s2) = joins_of r (trace s1)"
      and c: "checks_of r (trace s2) = checks_of r (trace s1) + length (filter (\<lambda>room. roomid room = r) roomList)"
      and f: "(\<forall>h q. first_entry (checkRedPacket n h r) = Some q \<longrightarrow> lot_status q = 2 \<or> RedPocket.lot_id q = 0) \<longrightarrow>
        (\<forall>c\<in>set cands. room_id c \<noteq> r)"
      and t: "(\<forall>h. \<exists>d m q qs. checkRedPacket n h r = Resp 0 (Data d) m \<and> popularity_red_pocket d = Some (q # qs) \<and>
            lot_status q \<noteq> 2 \<and> RedPocket.lot_id q \<noteq> 0) \<longrightarrow>
        length (filter (\<lambda>c. room_id c = r) cands) = length (filter (\<lambda>room. roomid room = r) roomList)"
      using getRedPacketRoom_rooms_spec0 [of n roomList s1 r] by (elim exE conjE) blast
    have "s' = snd (doRedPackArea_rooms n cands s2)"
      using Pair Inr l by (simp add: s'_def getRedPacketRoom_def bind_io_def)
    then have tr: "trace s' = trace s2 @ concat (map (\<lambda>c. [red_packet_join c, Delay 200]) cands)"
      by (simp add: doRedPackArea_rooms_trace)
    have z: "(\<forall>c\<in>set cands. room_id c \<noteq> r) \<longrightarrow> filter (\<lambda>c. room_id c = r) cands = []"
      by (simp add: filter_empty_conv)
    show ?thesis
      using f t j c c1 z by (auto simp: tr joins_of_join_loop checks_of_join_loop)
  qed
qed

lemma never_joined:
  assumes "\<forall>h q. first_entry (checkRedPacket n h r) = Some q \<longrightarrow> lot_status q = 2 \<or> RedPocket.lot_id q = 0"
  shows "joins_of r (trace (snd (liveRedPackService cfg n s))) = joins_of r (trace s)"
proof (rule liveRedPackService_inv [where I = "\<lambda>s'. joins_of r (trace s') = joins_of r (trace s)"])
  show "joins_of r (trace (snd (reset_newFollowUp s))) = joins_of r (trace s)"
    by (simp add: reset_newFollowUp_def)
  show "\<And>a p page. preserves (\<lambda>s'. joins_of r (trace s') = joins_of r (trace s))
          (bind_io (getRedPacketRoom n a p page) (doRedPackArea_rooms n))"
    using red_packet_page_counts [of n r] assms unfolding preserves_def by metis
qed (simp_all add: counts_snoc)

lemma joined_once_per_check:
  assumes "\<forall>h. \<exists>d m q qs. checkRedPacket n h r = Resp 0 (Data d) m \<and> popularity_red_pocket d = Some (q # qs) \<and>
              lot_status q \<noteq> 2 \<and> RedPocket.lot_id q \<noteq> 0"
  shows "joins_of r (trace (snd (liveRedPackService cfg n s))) + checks_of r (trace s) =
         joins_of r (trace s) + checks_of r (trace (snd (liveRedPackService cfg n s)))"
proof (rule liveRedPackService_inv [where I = "\<lambda>s'. joins_of r (trace s') + checks_of r (trace s) =
         joins_of r (trace s) + checks_of r (trace s')"])
  show "joins_of r (trace (snd (reset_newFollowUp s))) + checks_of r (trace s) =
         joins_of r (trace s) + checks_of r (trace (snd (reset_newFollowUp s)))"
    by (simp add: reset_newFollowUp_def)
  show "preserves (\<lambda>s'. joins_of r (trace s') + checks_of r (trace s) =
         joins_of r (trace s) + checks_of r (trace s'))
          (bind_io (getRedPacketRoom n a p page) (doRedPackArea_rooms n))" for a p page
    unfolding preserves_def
  proof (intro allI impI)
    fix s0 :: state
    assume i: "joins_of r (trace s0) + checks_of r (trace s) = joins_of r (trace s) + checks_of r (trace s0)"
    let ?s' = "snd (bind_io (getRedPacketRoom n a p page) (doRedPackArea_rooms n) s0)"
    have "joins_of r (trace ?s') + checks_of r (trace s0) = joins_of r (trace s0) + checks_of r (trace ?s')"
      using red_packet_page_counts [of n r a p page s0] assms by blast
    then show "joins_of r (trace ?s') + checks_of r (trace s) = joins_of r (trace s) + checks_of r (trace ?s')"
      using i by linarith
  qed
qed (simp_all add: counts_snoc)

lemma getRedPacketRoom_candidates:
  assumes "fst (getRedPacketRoom n a p page s) = Inr cands"
  shows "(\<forall>c\<in>set cands. lot_id c \<noteq> 0) \<and>
         ((\<forall>h q. first_entry (checkRedPacket n h r) = Some q \<longrightarrow> lot_status q = 2 \<or> RedPocket.lot_id q = 0) \<longrightarrow>
            (\<forall>c\<in>set cands. room_id c \<noteq> r))"
proof (cases "getLotteryRoomList n a p page redPack s")
  case (Pair x s1)
  show ?thesis
  proof (cases x)
    case (Inl e)
    then show ?thesis using assms Pair by (simp add: getRedPacketRoom_def bind_io_def)
  next
    case (Inr roomList)
    obtain cands' s2 where
      l: "getRedPacketRoom_rooms n roomList s1 = (Inr cands', s2)"
      and f: "(\<forall>h q. first_entry (checkRedPacket n h r) = Some q \<longrightarrow> lot_status q = 2 \<or> RedPocket.lot_id q = 0) \<longrightarrow>
        (\<forall>c\<in>set cands'. room_id c \<noteq> r)"
      and z: "\<forall>c\<in>set cands'. lot_id c \<noteq> 0"
      using getRedPacketRoom_rooms_spec0 [of n roomList s1 r] by (elim exE conjE) blast
    have "cands' = cands" using assms Pair Inr l by (simp add: getRedPacketRoom_def bind_io_def)
    then show ?thesis using f z by auto
  qed
qed

text \<open>What the loops of the red-packet pipeline send.\<close>

lemma issues_bind_right:
  assumes "issues P m a" and "\<And>x. issues P (g x) []"
  shows "issues P (bind_io m g) a"
  using issues_bind [OF assms] by simp

lemma issues_bind_left:
  assumes "issues P m []" and "\<And>x. issues P (g x) b"
  shows "issues P (bind_io m g) b"
  using issues_bind [OF assms] by simp

lemma issues_if:
  "(c \<Longrightarrow> issues P a es) \<Longrightarrow> (\<not> c \<Longrightarrow> issues P b es) \<Longrightarrow> issues P (if c then a else b) es"
  by simp

lemma issues_case_option:
  "issues P a es \<Longrightarrow> (\<And>x. issues P (f x) es) \<Longrightarrow>
   issues P (case v of None \<Rightarrow> a | Some x \<Rightarrow> f x) es"
  by (cases v) simp_all

lemma issues_quiet_delay: "\<not> P (Delay ms) \<Longrightarrow> issues P (apiDelay ms) []"
  using issues_apiDelay [of P ms] by simp

lemma getRedPacketId_issues: "issues P (getRedPacketId n r) (filter P [CheckRedPacket r])"
  by (rule issues_exact) (simp_all add: getRedPacketId_no_throw getRedPacketId_trace)

lemma getRedPacketRoom_rooms_issues:
  assumes "\<And>ms. \<not> P (Delay ms)"
  shows "issues P (getRedPacketRoom_rooms n rooms)
           (concat (map (\<lambda>room. filter P [CheckRedPacket (roomid room)]) rooms))"
  unfolding getRedPacketRoom_rooms_def
  apply (rule issues_for_of)
  apply (rule issues_bind_right)
   apply (rule getRedPacketId_issues)
  apply (rule issues_if)
   apply (rule issues_bind_left)
    apply (rule issues_quiet_delay, rule assms)
   apply (rule issues_return)
  apply (rule issues_return)
  done

lemma filter_join_loop:
  assumes "\<And>ms. \<not> P (Delay ms)" and "\<And>e. is_join e \<Longrightarrow> \<not> P e"
  shows "filter P (concat (map (\<lambda>c. [red_packet_join c, Delay ms]) cands)) = []"
    and "filter P (concat (map (\<lambda>lot. [lottery_join lot, Delay ms]) rooms)) = []"
  using assms by (induction cands) (simp_all add: red_packet_join_def lottery_join_def)

lemma doRedPackArea_rooms_issues:
  assumes "\<And>ms. \<not> P (Delay ms)" and "\<And>e. is_join e \<Longrightarrow> \<not> P e"
  shows "issues P (doRedPackArea_rooms n cands) []"
  using issues_exact [of "doRedPackArea_rooms n cands"
      "concat (map (\<lambda>c. [red_packet_join c, Delay 200]) cands)" P]
  by (simp add: doRedPackArea_rooms_no_throw doRedPackArea_rooms_trace filter_join_loop assms)

lemma red_packet_rooms_issues:
  assumes "\<And>ms. \<not> P (Delay ms)" and "\<And>e. is_join e \<Longrightarrow> \<not> P e"
  shows "issues P (bind_io (getRedPacketRoom_rooms n rooms) (doRedPackArea_rooms n))
           (concat (map (\<lambda>room. filter P [CheckRedPacket (roomid room)]) rooms))"
  by (intro issues_bind_right getRedPacketRoom_rooms_issues doRedPackArea_rooms_issues assms)

lemma bind_io_assoc: "bind_io (bind_io m f) g = bind_io m (\<lambda>x. bind_io (f x) g)"
  by (rule ext) (simp add: bind_io_def split: prod.splits sum.splits)

lemma red_packet_page_issues:
  assumes "pages_are n pg" and "\<And>ms. \<not> P (Delay ms)" and "\<And>e. is_join e \<Longrightarrow> \<not> P e"
  shows "issues P (bind_io (getRedPacketRoom n a p page) (doRedPackArea_rooms n))
           (filter P [GetLiveRoom p a page] @
            concat (map (\<lambda>room. filter P [CheckRedPacket (roomid room)])
              (badge_rooms redPack (pg p a page))))"
proof -
  have "issues P (bind_io (getLotteryRoomList n a p page redPack)
            (\<lambda>rooms. bind_io (getRedPacketRoom_rooms n rooms) (doRedPackArea_rooms n)))
          (filter P [Delay 100, GetLiveRoom p a page] @
            concat (map (\<lambda>room. filter P [CheckRedPacket (roomid room)])
              (badge_rooms redPack (pg p a page))))"
    by (rule issues_bind_value [where v = "badge_rooms redPack (pg p a page)"])
      (rule getLotteryRoomList_issues getLotteryRoomList_value red_packet_rooms_issues assms)+
  then show ?thesis
    by (simp add: getRedPacketRoom_def bind_io_assoc assms)
qed

lemma liveRedPackService_areas_issues:
  assumes "pages_are n pg" and "\<And>ms. \<not> P (Delay ms)" and "\<And>e. is_join e \<Longrightarrow> \<not> P e"
  shows "issues P (liveRedPackService_areas cfg n areaList)
     (concat (map (\<lambda>areas. concat (map (\<lambda>area. concat (map (\<lambda>page.
        filter P [GetLiveRoom (parentId area) (areaId area) page] @
        concat (map (\<lambda>room. filter P [CheckRedPacket (roomid room)])
          (badge_rooms redPack (pg (parentId area) (areaId area) page))))
        (pages_of (LOTTERY_PAGE_NUM cfg)))) areas)) areaList))"
  unfolding liveRedPackService_areas_def doRedPackArea_def Let_def pages_of_def
  by (intro issues_for_of red_packet_page_issues assms)

lemma concat_map_map: "concat (map (\<lambda>x. map f (g x)) xs) = map f (concat (map g xs))"
  by (induction xs) simp_all

lemma concat_map_nil: "concat (map (\<lambda>x. []) xs) = []"
  by (induction xs) simp_all

lemma listed_checks:
  "concat (map (\<lambda>areas. concat (map (\<lambda>area. concat (map (\<lambda>page.
        map f (badge_rooms t (pg (parentId area) (areaId area) page)))
        pages)) areas)) areaList)
   = map f (concat (map (\<lambda>areas. concat (map (\<lambda>area.
       concat (map (\<lambda>page. badge_rooms t (pg (parentId area) (areaId area) page)) pages))
       areas)) areaList))"
  by (simp add: concat_map_map)

lemma is_join_not_check: "is_join e \<Longrightarrow> \<not> is_check e"
  by (cases e) simp_all

lemma is_join_not_fetch: "is_join e \<Longrightarrow> \<not> is_fetch e"
  by (cases e) simp_all

lemma trace_reset [simp]: "trace (snd (reset_newFollowUp s)) = trace s"
  by (simp add: reset_newFollowUp_def)

text \<open>A red-packet run whose fetch of the categories resolves with the payload \<open>ad\<close>, while page
  \<open>page\<close> of an area is \<open>pg parentId areaId page\<close> whenever it is fetched: the run returns its
  accumulator, fetches every page of every sub-area and checks every room that these pages list
  with the red-packet badge, in order.\<close>

lemma liveRedPackService_sends:
  assumes "getArea n (trace s) = Resp code (Data ad) m" and "pages_are n pg"
  shows "\<exists>evs.
     fst (liveRedPackService cfg n s) = Inr (Some (nextRef s)) \<and>
     trace (snd (liveRedPackService cfg n s)) = trace s @ GetArea # evs \<and>
     filter is_fetch evs = page_fetches (areas_of ad) (LOTTERY_PAGE_NUM cfg) \<and>
     filter is_check evs =
       map (\<lambda>room. CheckRedPacket (roomid room))
         (listed redPack pg (areas_of ad) (LOTTERY_PAGE_NUM cfg))"
proof -
  have a: "getArea n (trace (snd (reset_newFollowUp s))) = Resp code (Data ad) m"
    using assms(1) by simp
  have "issues is_check (liveRedPackService_areas cfg n (areas_of ad))
     (map (\<lambda>room. CheckRedPacket (roomid room)) (listed redPack pg (areas_of ad) (LOTTERY_PAGE_NUM cfg)))"
    using liveRedPackService_areas_issues [of n pg is_check cfg "areas_of ad"] assms(2)
      is_join_not_check
    by (simp add: listed_def listed_checks)
  from service_issues [where loop = "liveRedPackService_areas cfg n", OF a this] obtain x evs where
    1: "fst (liveRedPackService cfg n s) = Inr x"
    "trace (snd (liveRedPackService cfg n s)) = trace s @ GetArea # evs"
    "filter is_check evs =
       map (\<lambda>room. CheckRedPacket (roomid room)) (listed redPack pg (areas_of ad) (LOTTERY_PAGE_NUM cfg))"
    unfolding liveRedPackService_after_reset by auto
  have "issues is_fetch (liveRedPackService_areas cfg n (areas_of ad))
     (page_fetches (areas_of ad) (LOTTERY_PAGE_NUM cfg))"
    using liveRedPackService_areas_issues [of n pg is_fetch cfg "areas_of ad"] assms(2)
      is_join_not_fetch
    by (simp add: page_fetches_def concat_map_nil)
  from service_issues [where loop = "liveRedPackService_areas cfg n", OF a this] obtain evs' where
    2: "trace (snd (liveRedPackService cfg n s)) = trace s @ GetArea # evs'"
    "filter is_fetch evs' = page_fetches (areas_of ad) (LOTTERY_PAGE_NUM cfg)"
    unfolding liveRedPackService_after_reset by auto
  have "evs' = evs" using 1(2) 2(1) by simp
  moreover have "x = Some (nextRef s)" using 1(1) by (rule liveRedPackService_result)
  ultimately show ?thesis using 1 2 by blast
qed

lemma counts_append:
  "checks_of r (a @ b) = checks_of r a + checks_of r b"
  "joins_of r (a @ b) = joins_of r a + joins_of r b"
  by (simp_all add: checks_of_def joins_of_def)

lemma count_checks:
  assumes "filter is_check evs = map (\<lambda>room. CheckRedPacket (roomid room)) rooms"
  shows "checks_of r evs = length (filter (\<lambda>room. roomid room = r) rooms)"
proof -
  have "filter (is_check_of r) evs = filter (is_check_of r) (filter is_check evs)"
    by (induction evs) (auto dest: is_check_of_check)
  also have "\<dots> = filter (is_check_of r) (map (\<lambda>room. CheckRedPacket (roomid room)) rooms)"
    by (simp add: assms)
  also have "\<dots> = map (\<lambda>room. CheckRedPacket (roomid room)) (filter (\<lambda>room. roomid room = r) rooms)"
    by (simp add: filter_map comp_def)
  finally show ?thesis by (simp add: checks_of_def)
qed

text \<open>One page of the red-packet pipeline whose fetch resolves with the payload \<open>d\<close>: every room
  that \<open>d\<close> lists with the red-packet badge is checked, in order and once for each listing; a room
  whose checks always find a closed entry or a zero \<open>lot_id\<close> is not joined, one whose checks
  always find an open entry with another \<open>lot_id\<close> is joined once for each listing.\<close>

lemma red_packet_page_sends:
  assumes "getLiveRoom n (trace s @ [Delay 100]) p a page = Resp code (Data d) m"
  shows "\<exists>evs.
     fst (bind_io (getRedPacketRoom n a p page) (doRedPackArea_rooms n) s) = Inr () \<and>
     trace (snd (bind_io (getRedPacketRoom n a p page) (doRedPackArea_rooms n) s))
       = trace s @ Delay 100 # GetLiveRoom p a page # evs \<and>
     filter is_check evs = map (\<lambda>room. CheckRedPacket (roomid room)) (badge_rooms redPack d) \<and>
     ((\<forall>h q. first_entry (checkRedPacket n h r) = Some q \<longrightarrow> lot_status q = 2 \<or> RedPocket.lot_id q = 0) \<longrightarrow>
        joins_of r evs = 0) \<and>
     ((\<forall>h. \<exists>d m q qs. checkRedPacket n h r = Resp 0 (Data d) m \<and> popularity_red_pocket d = Some (q # qs) \<and>
              lot_status q \<noteq> 2 \<and> RedPocket.lot_id q \<noteq> 0) \<longrightarrow>
        joins_of r evs = length (filter (\<lambda>room. roomid room = r) (badge_rooms redPack d)))"
proof -
  define s1 where "s1 = s\<lparr>trace := trace s @ [Delay 100, GetLiveRoom p a page],
        logs := logs s @ (if code \<noteq> 0 then [RoomListFailed code m] else [])\<rparr>"
  have g: "getLotteryRoomList n a p page redPack s = (Inr (badge_rooms redPack d), s1)"
    using getLotteryRoomList_resolved [OF assms] by (simp add: s1_def)
  have "issues is_check (bind_io (getRedPacketRoom_rooms n (badge_rooms redPack d)) (doRedPackArea_rooms n))
          (map (\<lambda>room. CheckRedPacket (roomid room)) (badge_rooms redPack d))"
    using red_packet_rooms_issues [of is_check n "badge_rooms redPack d"] is_join_not_check
    by simp
  then obtain x evs where
    1: "fst (bind_io (getRedPacketRoom_rooms n (badge_rooms redPack d)) (doRedPackArea_rooms n) s1) = Inr x"
    and 2: "trace (snd (bind_io (getRedPacketRoom_rooms n (badge_rooms redPack d)) (doRedPackArea_rooms n) s1))
        = trace s1 @ evs"
    and 3: "filter is_check evs = map (\<lambda>room. CheckRedPacket (roomid room)) (badge_rooms redPack d)"
    unfolding issues_def by blast
  define s' where "s' = snd (bind_io (getRedPacketRoom n a p page) (doRedPackArea_rooms n) s)"
  have eq: "bind_io (getRedPacketRoom n a p page) (doRedPackArea_rooms n) s
      = bind_io (getRedPacketRoom_rooms n (badge_rooms redPack d)) (doRedPackArea_rooms n) s1"
    by (simp add: getRedPacketRoom_def bind_io_def g)
  have t: "trace s' = trace s @ Delay 100 # GetLiveRoom p a page # evs"
    using 2 by (simp add: s'_def eq s1_def)
  have j: "joins_of r (trace s') = joins_of r (trace s) + joins_of r evs"
    by (simp add: t joins_of_def)
  have c: "checks_of r (trace s') = checks_of r (trace s) + checks_of r evs"
    by (simp add: t checks_of_def)
  have closed: "joins_of r evs = 0"
    if "\<forall>h q. first_entry (checkRedPacket n h r) = Some q \<longrightarrow> lot_status q = 2 \<or> RedPocket.lot_id q = 0"
    using red_packet_page_counts [of n r a p page s] that j by (simp add: s'_def)
  have opened: "joins_of r evs = length (filter (\<lambda>room. roomid room = r) (badge_rooms redPack d))"
    if "\<forall>h. \<exists>d m q qs. checkRedPacket n h r = Resp 0 (Data d) m \<and> popularity_red_pocket d = Some (q # qs) \<and>
              lot_status q \<noteq> 2 \<and> RedPocket.lot_id q \<noteq> 0"
  proof -
    have "joins_of r (trace s') + checks_of r (trace s) = joins_of r (trace s) + checks_of r (trace s')"
      using red_packet_page_counts [of n r a p page s] that unfolding s'_def by blast
    then have "joins_of r evs = checks_of r evs" using j c by simp
    then show ?thesis by (simp add: count_checks [OF 3])
  qed
  show ?thesis
    using 1 t 3 closed opened unfolding s'_def eq by (intro exI [of _ evs]) simp
qed

text \<open>A whole red-packet run, with the pages as in \<open>liveRedPackService_sends\<close>: a room whose checks
  always find an open entry with a \<open>lot_id\<close> other than zero is joined once for each listing of it
  on the pages of the run.\<close>

lemma liveRedPackService_joins:
  assumes "getArea n (trace s) = Resp code (Data ad) m" and "pages_are n pg"
    and "\<forall>h. \<exists>d m q qs. checkRedPacket n h r = Resp 0 (Data d) m \<and> popularity_red_pocket d = Some (q # qs) \<and>
              lot_status q \<noteq> 2 \<and> RedPocket.lot_id q \<noteq> 0"
  shows "joins_of r (trace (snd (liveRedPackService cfg n s))) =
         joins_of r (trace s) +
         length (filter (\<lambda>room. roomid room = r) (listed redPack pg (areas_of ad) (LOTTERY_PAGE_NUM cfg)))"
proof -
  obtain evs where
    t: "trace (snd (liveRedPackService cfg n s)) = trace s @ GetArea # evs"
    and c: "filter is_check evs =
       map (\<lambda>room. CheckRedPacket (roomid room)) (listed redPack pg (areas_of ad) (LOTTERY_PAGE_NUM cfg))"
    using liveRedPackService_sends [OF assms(1,2), of cfg] by blast
  have "checks_of r (trace (snd (liveRedPackService cfg n s))) = checks_of r (trace s) + checks_of r evs"
    by (simp add: t checks_of_def)
  moreover have "joins_of r (trace (snd (liveRedPackService cfg n s))) + checks_of r (trace s) =
         joins_of r (trace s) + checks_of r (trace (snd (liveRedPackService cfg n s)))"
    using assms(3) by (rule joined_once_per_check)
  ultimately show ?thesis by (simp add: count_checks [OF c])
qed

subsection \<open>Joins and the checks that find an open entry\<close>

text \<open>An answer to a red-packet check after which \<open>getRedPacketRoom\<close> keeps the room: code 0,
  a list that is not empty, and a first entry of a status other than 2 and a \<open>lot_id\<close> other
  than 0.\<close>

definition joinable :: "RedPacketData response \<Rightarrow> bool" where
  "joinable resp =
     (case resp of
        Resp code (Data d) m \<Rightarrow>
          code = 0 \<and>
          (case popularity_red_pocket d of
             Some (q # qs) \<Rightarrow> lot_status q \<noteq> 2 \<and> RedPocket.lot_id q \<noteq> 0
           | _ \<Rightarrow> False)
      | _ \<Rightarrow> False)"

text \<open>Among the operations \<open>es\<close> that follow the history \<open>h\<close>, the number of red-packet checks of
  the room \<open>r\<close> that the service answers with a joinable entry.\<close>

fun open_checks :: "net \<Rightarrow> int \<Rightarrow> event list \<Rightarrow> event list \<Rightarrow> nat" where
  "open_checks n r h [] = 0"
| "open_checks n r h (e # es) =
     (if e = CheckRedPacket r \<and> joinable (checkRedPacket n h r) then 1 else 0) +
     open_checks n r (h @ [e]) es"

lemma open_checks_append:
  "open_checks n r h (a @ b) = open_checks n r h a + open_checks n r (h @ a) b"
  by (induction a arbitrary: h) simp_all

lemma open_checks_join_loop:
  "open_checks n r h (concat (map (\<lambda>c. [red_packet_join c, Delay 200]) cands)) = 0"
  by (induction cands arbitrary: h) (simp_all add: red_packet_join_def)

lemma open_checks_uniform:
  "\<forall>h. joinable (checkRedPacket n h r) \<Longrightarrow> open_checks n r h es = checks_of r es"
  "\<forall>h. \<not> joinable (checkRedPacket n h r) \<Longrightarrow> open_checks n r h es = 0"
proof (induction es arbitrary: h)
  case Nil
  {
    case 1
    show ?case by (simp add: checks_of_def)
  next
    case 2
    show ?case by simp
  }
next
  case (Cons e es)
  {
    case 1
    then show ?case using Cons(1) [OF 1] by (cases e) (simp_all add: checks_of_def)
  next
    case 2
    then show ?case using Cons(2) [OF 2] by simp
  }
qed

lemma getRedPacketId_joinable:
  "\<exists>x. getRedPacketId n r s = (Inr x, s\<lparr>trace := trace s @ [CheckRedPacket r]\<rparr>) \<and>
       ((x \<noteq> None \<and> x \<noteq> Some 0) \<longleftrightarrow> joinable (checkRedPacket n (trace s) r))"
proof (cases "checkRedPacket n (trace s) r")
  case (Throws e)
  then show ?thesis by (simp add: getRedPacketId_def io_defs joinable_def)
next
  case (Resp code d m)
  then show ?thesis
    by (cases d)
      (auto simp: getRedPacketId_def io_defs joinable_def split: option.splits list.splits)
qed

text \<open>The loop of \<open>getRedPacketRoom\<close> changes the trace alone, sends no join, and keeps a room once
  for each of its checks that finds a joinable entry.\<close>

lemma getRedPacketRoom_rooms_kept:
  fixes acc :: "RedPacket list"
  shows "\<exists>cands evs.
     for_of (\<lambda>room checkedRoomList.
        bind_io (getRedPacketId n (roomid room)) (\<lambda>lotId.
          if lotId \<noteq> None \<and> lotId \<noteq> Some 0 then
            bind_io (apiDelay 100) (\<lambda>_.
            return_io (checkedRoomList @
              [\<lparr>uid = LiveRoomList.uid room, uname = LiveRoomList.uname room,
                lot_id = the lotId, room_id = roomid room\<rparr>]))
          else return_io checkedRoomList)) roomList acc s = (Inr cands, s\<lparr>trace := trace s @ evs\<rparr>) \<and>
     filter is_join evs = [] \<and>
     length (filter (\<lambda>c. room_id c = r) cands) =
       length (filter (\<lambda>c. room_id c = r) acc) + open_checks n r (trace s) evs"
proof (induction roomList arbitrary: acc s)
  case Nil
  show ?case by (intro exI [of _ acc] exI [of _ "[]"]) (simp add: return_io_def)
next
  case (Cons room rest)
  obtain lotId where
    g: "getRedPacketId n (roomid room) s = (Inr lotId, s\<lparr>trace := trace s @ [CheckRedPacket (roomid room)]\<rparr>)"
    and j: "(lotId \<noteq> None \<and> lotId \<noteq> Some 0) \<longleftrightarrow> joinable (checkRedPacket n (trace s) (roomid room))"
    using getRedPacketId_joinable [of n "roomid room" s] by blast
  define kept where "kept \<longleftrightarrow> lotId \<noteq> None \<and> lotId \<noteq> Some 0"
  define e1 where "e1 = (if kept then [CheckRedPacket (roomid room), Delay 100] else [CheckRedPacket (roomid room)])"
  define acc' where "acc' = (if kept
          then acc @ [\<lparr>uid = LiveRoomList.uid room, uname = LiveRoomList.uname room,
                lot_id = the lotId, room_id = roomid room\<rparr>]
          else acc)"
  from Cons.IH [of acc' "s\<lparr>trace := trace s @ e1\<rparr>"] obtain cands evs where
    ih: "for_of (\<lambda>room checkedRoomList.
        bind_io (getRedPacketId n (roomid room)) (\<lambda>lotId.
          if lotId \<noteq> None \<and> lotId \<noteq> Some 0 then
            bind_io (apiDelay 100) (\<lambda>_.
            return_io (checkedRoomList @
              [\<lparr>uid = LiveRoomList.uid room, uname = LiveRoomList.uname room,
                lot_id = the lotId, room_id = roomid room\<rparr>]))
          else return_io checkedRoomList)) rest acc' (s\<lparr>trace := trace s @ e1\<rparr>)
        = (Inr cands, s\<lparr>trace := trace s @ e1 @ evs\<rparr>)"
    and ihj: "filter is_join evs = []"
    and ihc: "length (filter (\<lambda>c. room_id c = r) cands) =
       length (filter (\<lambda>c. room_id c = r) acc') + open_checks n r (trace s @ e1) evs"
    by auto
  have c1: "length (filter (\<lambda>c. room_id c = r) acc') =
      length (filter (\<lambda>c. room_id c = r) acc) + open_checks n r (trace s) e1"
    using j by (auto simp: acc'_def e1_def kept_def)
  have "for_of (\<lambda>room checkedRoomList.
        bind_io (getRedPacketId n (roomid room)) (\<lambda>lotId.
          if lotId \<noteq> None \<and> lotId \<noteq> Some 0 then
            bind_io (apiDelay 100) (\<lambda>_.
            return_io (checkedRoomList @
              [\<lparr>uid = LiveRoomList.uid room, uname = LiveRoomList.uname room,
                lot_id = the lotId, room_id = roomid room\<rparr>]))
          else return_io checkedRoomList)) (room # rest) acc s
      = (Inr cands, s\<lparr>trace := trace s @ (e1 @ evs)\<rparr>)"
  proof (cases kept)
    case True
    then have k: "lotId \<noteq> None \<and> lotId \<noteq> Some 0" by (simp add: kept_def)
    show ?thesis
      unfolding getRedPacketRoom_rooms_Cons [OF g]
      using ih True k by (simp add: acc'_def e1_def)
  next
    case False
    then have k: "\<not> (lotId \<noteq> None \<and> lotId \<noteq> Some 0)" by (simp add: kept_def)
    show ?thesis
      unfolding getRedPacketRoom_rooms_Cons [OF g]
      using ih False k by (cases lotId) (auto simp: acc'_def e1_def)
  qed
  moreover have "filter is_join (e1 @ evs) = []"
    using ihj by (simp add: e1_def)
  moreover have "length (filter (\<lambda>c. room_id c = r) cands) =
       length (filter (\<lambda>c. room_id c = r) acc) + open_checks n r (trace s) (e1 @ evs)"
    using ihc c1 by (simp add: open_checks_append)
  ultimately show ?case by blast
qed

text \<open>The operations sent since the trace \<open>t0\<close> hold as many joins of the room \<open>r\<close> as checks of
  \<open>r\<close> that found a joinable entry.\<close>

definition joins_match :: "net \<Rightarrow> int \<Rightarrow> event list \<Rightarrow> state \<Rightarrow> bool" where
  "joins_match n r t0 s \<longleftrightarrow>
     (\<exists>evs. trace s = t0 @ evs \<and> joins_of r evs = open_checks n r t0 evs)"

lemma joins_match_event:
  assumes "joins_match n r t0 s" and "\<not> is_join e" and "\<not> is_check e"
  shows "joins_match n r t0 (s\<lparr>trace := trace s @ [e]\<rparr>)"
proof -
  obtain evs where 1: "trace s = t0 @ evs" "joins_of r evs = open_checks n r t0 evs"
    using assms(1) by (auto simp: joins_match_def)
  have "e \<noteq> CheckRedPacket r" using assms(3) by auto
  then have "open_checks n r t0 (evs @ [e]) = open_checks n r t0 evs"
    by (simp add: open_checks_append)
  moreover have "joins_of r (evs @ [e]) = joins_of r evs"
    using assms(2) by (simp add: counts_snoc)
  ultimately show ?thesis
    using 1 unfolding joins_match_def by (intro exI [of _ "evs @ [e]"]) simp
qed

lemma joins_match_page:
  "preserves (joins_match n r t0) (bind_io (getRedPacketRoom n a p page) (doRedPackArea_rooms n))"
  unfolding preserves_def
proof (intro allI impI)
  fix s :: state
  assume i: "joins_match n r t0 s"
  have "preserves (joins_match n r t0) (getLotteryRoomList n a p page redPack)"
  proof (rule getLotteryRoomList_pres)
    show "\<And>s l. joins_match n r t0 s \<Longrightarrow> joins_match n r t0 (s\<lparr>logs := logs s @ [l]\<rparr>)"
      by (simp add: joins_match_def)
    show "\<And>s e. joins_match n r t0 s \<Longrightarrow> is_delay e \<Longrightarrow>
            joins_match n r t0 (s\<lparr>trace := trace s @ [e]\<rparr>)"
      using joins_match_event delay_kind by blast
    show "\<And>s e. joins_match n r t0 s \<Longrightarrow> is_fetch e \<Longrightarrow>
            joins_match n r t0 (s\<lparr>trace := trace s @ [e]\<rparr>)"
      using joins_match_event fetch_kind by blast
  qed
  then have i1: "joins_match n r t0 (snd (getLotteryRoomList n a p page redPack s))"
    using i by (simp add: preserves_def)
  show "joins_match n r t0 (snd (bind_io (getRedPacketRoom n a p page) (doRedPackArea_rooms n) s))"
  proof (cases "getLotteryRoomList n a p page redPack s")
    case (Pair x s1)
    show ?thesis
    proof (cases x)
      case (Inl e)
      then show ?thesis using i1 Pair by (simp add: getRedPacketRoom_def bind_io_def)
    next
      case (Inr roomList)
      obtain evs1 where 1: "trace s1 = t0 @ evs1" "joins_of r evs1 = open_checks n r t0 evs1"
        using i1 Pair by (auto simp: joins_match_def)
      obtain cands evs2 where
        l: "getRedPacketRoom_rooms n roomList s1 = (Inr cands, s1\<lparr>trace := trace s1 @ evs2\<rparr>)"
        and j2: "filter is_join evs2 = []"
        and c2: "length (filter (\<lambda>c. room_id c = r) cands) = open_checks n r (trace s1) evs2"
        using getRedPacketRoom_rooms_kept [of n roomList "[]" s1 r]
        unfolding getRedPacketRoom_rooms_def by auto
      let ?evs3 = "concat (map (\<lambda>c. [red_packet_join c, Delay 200]) cands)"
      have "bind_io (getRedPacketRoom n a p page) (doRedPackArea_rooms n) s
          = doRedPackArea_rooms n cands (s1\<lparr>trace := trace s1 @ evs2\<rparr>)"
        using Pair Inr l by (simp add: getRedPacketRoom_def bind_io_def)
      then have t: "trace (snd (bind_io (getRedPacketRoom n a p page) (doRedPackArea_rooms n) s))
          = t0 @ (evs1 @ evs2 @ ?evs3)"
        by (simp add: doRedPackArea_rooms_trace 1)
      have "joins_of r evs2 = 0"
      proof -
        have "filter (is_join_of r) evs2 = filter (is_join_of r) (filter is_join evs2)"
          by (induction evs2) (auto dest: is_join_of_join)
        then show ?thesis by (simp add: j2 joins_of_def)
      qed
      then have "joins_of r (evs1 @ evs2 @ ?evs3) = open_checks n r t0 (evs1 @ evs2 @ ?evs3)"
        using 1 c2 joins_of_join_loop [of r "[]" cands]
        by (simp add: counts_append open_checks_append open_checks_join_loop joins_of_def)
      then show ?thesis
        unfolding joins_match_def using t by blast
    qed
  qed
qed

text \<open>In every run of the red-packet pipeline, whatever the service answers and whether the run
  returns or throws, a room is joined once for each of its checks that found a joinable entry,
  and not otherwise.\<close>

lemma liveRedPackService_joins_match:
  "joins_match n r (trace s) (snd (liveRedPackService cfg n s))"
proof (rule liveRedPackService_inv)
  show "joins_match n r (trace s) (snd (reset_newFollowUp s))"
    by (simp add: joins_match_def joins_of_def)
  show "\<And>a p page. preserves (joins_match n r (trace s))
          (bind_io (getRedPacketRoom n a p page) (doRedPackArea_rooms n))"
    by (rule joins_match_page)
  show "\<And>s' l. joins_match n r (trace s) s' \<Longrightarrow> joins_match n r (trace s) (s'\<lparr>logs := logs s' @ [l]\<rparr>)"
    by (simp add: joins_match_def)
  show "\<And>s' e. joins_match n r (trace s) s' \<Longrightarrow> \<not> is_join e \<Longrightarrow> \<not> is_check e \<Longrightarrow>
          joins_match n r (trace s) (s'\<lparr>trace := trace s' @ [e]\<rparr>)"
    by (rule joins_match_event)
qed

lemma red_packet_page_joins_match:
  assumes "trace (snd (bind_io (getRedPacketRoom n a p page) (doRedPackArea_rooms n) s))
      = trace s @ Delay 100 # GetLiveRoom p a page # evs"
  shows "joins_of r evs = open_checks n r (trace s @ [Delay 100, GetLiveRoom p a page]) evs"
proof -
  have "joins_match n r (trace s) s"
    by (simp add: joins_match_def joins_of_def)
  then have "joins_match n r (trace s) (snd (bind_io (getRedPacketRoom n a p page) (doRedPackArea_rooms n) s))"
    using joins_match_page [of n r "trace s" a p page] by (simp add: preserves_def)
  then obtain evs' where
    1: "trace (snd (bind_io (getRedPacketRoom n a p page) (doRedPackArea_rooms n) s)) = trace s @ evs'"
    and 2: "joins_of r evs' = open_checks n r (trace s) evs'"
    by (auto simp: joins_match_def)
  have "evs' = Delay 100 # GetLiveRoom p a page # evs" using 1 assms by simp
  then show ?thesis using 2 by (simp add: joins_of_def)
qed

section \<open>Lottery: failures of one room\<close>

lemma checkLotteryRoom_steps:
  "steps (\<lambda>s. trace s = t) (checkLotteryRoom cfg n room)
     (\<lambda>s. trace s = t @ (if LiveRoomList.uid room \<in> set (LOTTERY_UP_BLACKLIST cfg) then []
                          else [CheckLottery (roomid room)]))"
proof (cases "LiveRoomList.uid room \<in> set (LOTTERY_UP_BLACKLIST cfg)")
  case True
  have "preserves (\<lambda>s. trace s = t) (checkLotteryRoom cfg n room)"
    unfolding checkLotteryRoom_def using True by (simp, intro pres leaf; simp)
  then show ?thesis using True by (simp add: steps_def preserves_def)
next
  case False
  have "steps (\<lambda>s. trace s = t) (checkLotteryRoom cfg n room) (\<lambda>s. trace s = t @ [CheckLottery (roomid room)])"
    unfolding checkLotteryRoom_def Let_def using False
    apply simp
    apply (rule steps_bind_post)
     apply (rule steps_try)
      apply (rule steps_bind_post)
       apply (rule steps_request)
      apply (rule preserves_return)
     apply (intro pres leaf; simp)
    apply (intro pres leaf; simp)
    done
  then show ?thesis using False by simp
qed

lemma checkLotteryRoom_trace:
  "trace (snd (checkLotteryRoom cfg n room s)) =
     trace s @ (if LiveRoomList.uid room \<in> set (LOTTERY_UP_BLACKLIST cfg) then []
                else [CheckLottery (roomid room)])"
  using checkLotteryRoom_steps [of "trace s" cfg n room] by (simp add: steps_def)

text \<open>A rejected call, of the check or of the join, is logged and the room is done with.\<close>

lemma checkLotteryRoom_rejected:
  assumes "LiveRoomList.uid room \<notin> set (LOTTERY_UP_BLACKLIST cfg)"
    and "checkLottery n (trace s) (roomid room) = Throws e"
  shows "checkLotteryRoom cfg n room s =
    (Inr None, s\<lparr>trace := trace s @ [CheckLottery (roomid room)],
                 logs := logs s @ [CheckException (roomid room) e]\<rparr>)"
  using assms by (simp add: checkLotteryRoom_def io_defs)

lemma doLottery_rejected:
  assumes "joinLottery n (trace s) (LiveCheckLotteryDto.id' lot) (gift_id lot) (gift_num lot) = Throws e"
  shows "doLottery n lot s =
    (Inr (), s\<lparr>trace := trace s @ [lottery_join lot],
               logs := logs s @ [LotteryStreamer (CheckedLottery.uname lot), LotteryAward (award_name lot),
                                 LotteryException e]\<rparr>)"
  using assms by (simp add: doLottery_def io_defs lottery_join_def)

text \<open>What the loops of the lottery pipeline send, when no check resolves with code 0 and a
  missing \<open>data\<close> and every pattern compiles.\<close>

lemma checkLotteryRoom_issues:
  assumes "draws_defined n" and "patterns_compile cfg"
  shows "issues P (checkLotteryRoom cfg n room)
           (filter P (if LiveRoomList.uid room \<in> set (LOTTERY_UP_BLACKLIST cfg) then []
                      else [CheckLottery (roomid room)]))"
  by (rule issues_exact) (simp_all add: checkLotteryRoom_no_throw assms checkLotteryRoom_trace)

lemma checkLotteryRoomList_rooms_issues:
  assumes "draws_defined n" and "patterns_compile cfg" and "\<And>ms. \<not> P (Delay ms)"
  shows "issues P (checkLotteryRoomList_rooms cfg n rooms)
           (concat (map (\<lambda>room. filter P
              (if LiveRoomList.uid room \<in> set (LOTTERY_UP_BLACKLIST cfg) then []
               else [CheckLottery (roomid room)])) rooms))"
  unfolding checkLotteryRoomList_rooms_def
  apply (rule issues_for_of)
  apply (rule issues_bind_right)
   apply (rule checkLotteryRoom_issues)
    apply (rule assms)
   apply (rule assms)
  apply (rule issues_case_option)
   apply (rule issues_return)
  apply (rule issues_bind_left)
   apply (rule issues_quiet_delay, rule assms)
  apply (rule issues_return)
  done

lemma doLotteryArea_rooms_issues:
  assumes "\<And>ms. \<not> P (Delay ms)" and "\<And>e. is_join e \<Longrightarrow> \<not> P e"
  shows "issues P (doLotteryArea_rooms n rooms) []"
  using issues_exact [of "doLotteryArea_rooms n rooms"
      "concat (map (\<lambda>lot. [lottery_join lot, Delay 300]) rooms)" P]
  by (simp add: doLotteryArea_rooms_no_throw doLotteryArea_rooms_trace filter_join_loop assms)

lemma lottery_page_issues:
  assumes "pages_are n pg" and "draws_defined n" and "patterns_compile cfg"
    and "\<And>ms. \<not> P (Delay ms)" and "\<And>e. is_join e \<Longrightarrow> \<not> P e"
  shows "issues P (bind_io (checkLotteryRoomList cfg n a p page) (doLotteryArea_rooms n))
           (filter P [GetLiveRoom p a page] @
            concat (map (\<lambda>room. filter P
              (if LiveRoomList.uid room \<in> set (LOTTERY_UP_BLACKLIST cfg) then []
               else [CheckLottery (roomid room)])) (badge_rooms lottery (pg p a page))))"
proof -
  have r: "issues P (bind_io (checkLotteryRoomList_rooms cfg n rooms) (doLotteryArea_rooms n))
           (concat (map (\<lambda>room. filter P
              (if LiveRoomList.uid room \<in> set (LOTTERY_UP_BLACKLIST cfg) then []
               else [CheckLottery (roomid room)])) rooms))" for rooms
    by (intro issues_bind_right checkLotteryRoomList_rooms_issues doLotteryArea_rooms_issues assms)
  have "issues P (bind_io (getLotteryRoomList n a p page lottery)
            (\<lambda>rooms. bind_io (checkLotteryRoomList_rooms cfg n rooms) (doLotteryArea_rooms n)))
          (filter P [Delay 100, GetLiveRoom p a page] @
            concat (map (\<lambda>room. filter P
              (if LiveRoomList.uid room \<in> set (LOTTERY_UP_BLACKLIST cfg) then []
               else [CheckLottery (roomid room)])) (badge_rooms lottery (pg p a page))))"
    by (rule issues_bind_value [where v = "badge_rooms lottery (pg p a page)"])
      (rule getLotteryRoomList_issues getLotteryRoomList_value r assms)+
  then show ?thesis
    by (simp add: checkLotteryRoomList_def bind_io_assoc assms)
qed

lemma liveLotteryService_areas_issues:
  assumes "pages_are n pg" and "draws_defined n" and "patterns_compile cfg"
    and "\<And>ms. \<not> P (Delay ms)" and "\<And>e. is_join e \<Longrightarrow> \<not> P e"
  shows "issues P (liveLotteryService_areas cfg n areaList)
     (concat (map (\<lambda>areas. concat (map (\<lambda>area. concat (map (\<lambda>page.
        filter P [GetLiveRoom (parentId area) (areaId area) page] @
        concat (map (\<lambda>room. filter P
              (if LiveRoomList.uid room \<in> set (LOTTERY_UP_BLACKLIST cfg) then []
               else [CheckLottery (roomid room)]))
          (badge_rooms lottery (pg (parentId area) (areaId area) page))))
        (pages_of (LOTTERY_PAGE_NUM cfg)))) areas)) areaList))"
  unfolding liveLotteryService_areas_def doLotteryArea_def Let_def pages_of_def
  by (intro issues_for_of lottery_page_issues assms)

lemma filter_check_if:
  "filter is_check (if c then [] else [CheckLottery r]) = (if c then [] else [CheckLottery r])"
  "filter is_fetch (if c then [] else [CheckLottery r]) = []"
  "filter is_join (if c then [] else [CheckLottery r]) = []"
  by simp_all

lemma concat_map_if: "concat (map (\<lambda>x. if Q x then [] else [f x]) xs) = map f (filter (\<lambda>x. \<not> Q x) xs)"
  by (induction xs) simp_all

lemma concat_map_filter:
  "concat (map (\<lambda>x. map f (filter Q (g x))) xs) = map f (filter Q (concat (map g xs)))"
  by (induction xs) simp_all

text \<open>A lottery run whose fetch of the categories resolves with the payload \<open>ad\<close>, while page
  \<open>page\<close> of an area is \<open>pg parentId areaId page\<close> whenever it is fetched, no check resolves with
  code 0 and a missing \<open>data\<close>, and every pattern compiles: whichever calls are rejected, the run
  returns its accumulator, fetches every page of every sub-area and asks for the draw of every
  room that these pages list with the time badge and that is not blacklisted, in order.\<close>

lemma liveLotteryService_sends:
  assumes "getArea n (trace s) = Resp code (Data ad) m" and "pages_are n pg"
    and "draws_defined n" and "patterns_compile cfg"
  shows "\<exists>evs.
     fst (liveLotteryService cfg n s) = Inr (Some (nextRef s)) \<and>
     trace (snd (liveLotteryService cfg n s)) = trace s @ GetArea # evs \<and>
     filter is_fetch evs = page_fetches (areas_of ad) (LOTTERY_PAGE_NUM cfg) \<and>
     filter is_check evs =
       map (\<lambda>room. CheckLottery (roomid room))
         (filter (\<lambda>room. LiveRoomList.uid room \<notin> set (LOTTERY_UP_BLACKLIST cfg))
            (listed lottery pg (areas_of ad) (LOTTERY_PAGE_NUM cfg)))"
proof -
  have a: "getArea n (trace (snd (reset_newFollowUp s))) = Resp code (Data ad) m"
    using assms(1) by simp
  have "issues is_check (liveLotteryService_areas cfg n (areas_of ad))
     (map (\<lambda>room. CheckLottery (roomid room))
         (filter (\<lambda>room. LiveRoomList.uid room \<notin> set (LOTTERY_UP_BLACKLIST cfg))
            (listed lottery pg (areas_of ad) (LOTTERY_PAGE_NUM cfg))))"
    using liveLotteryService_areas_issues [of n pg cfg is_check "areas_of ad"] assms(2,3,4)
      is_join_not_check
    by (simp add: listed_def filter_check_if concat_map_if concat_map_filter)
  from service_issues [where loop = "liveLotteryService_areas cfg n", OF a this] obtain x evs where
    1: "fst (liveLotteryService cfg n s) = Inr x"
    "trace (snd (liveLotteryService cfg n s)) = trace s @ GetArea # evs"
    "filter is_check evs =
       map (\<lambda>room. CheckLottery (roomid room))
         (filter (\<lambda>room. LiveRoomList.uid room \<notin> set (LOTTERY_UP_BLACKLIST cfg))
            (listed lottery pg (areas_of ad) (LOTTERY_PAGE_NUM cfg)))"
    unfolding liveLotteryService_after_reset by auto
  have "issues is_fetch (liveLotteryService_areas cfg n (areas_of ad))
     (page_fetches (areas_of ad) (LOTTERY_PAGE_NUM cfg))"
    using liveLotteryService_areas_issues [of n pg cfg is_fetch "areas_of ad"] assms(2,3,4)
      is_join_not_fetch
    by (simp add: page_fetches_def filter_check_if concat_map_nil)
  from service_issues [where loop = "liveLotteryService_areas cfg n", OF a this] obtain evs' where
    2: "trace (snd (liveLotteryService cfg n s)) = trace s @ GetArea # evs'"
    "filter is_fetch evs' = page_fetches (areas_of ad) (LOTTERY_PAGE_NUM cfg)"
    unfolding liveLotteryService_after_reset by auto
  have "evs' = evs" using 1(2) 2(1) by simp
  moreover have "x = Some (nextRef s)" using 1(1) by (rule liveLotteryService_result)
  ultimately show ?thesis using 1 2 by blast
qed

lemma filter_join_lottery_loop:
  "filter is_join (concat (map (\<lambda>lot. [lottery_join lot, Delay ms]) rooms)) = map lottery_join rooms"
  by (induction rooms) (simp_all add: lottery_join_def)

text \<open>One page of the lottery pipeline whose fetch resolves with the payload \<open>d\<close>, under the same
  conditions on the checks and the patterns: the draw of every room that \<open>d\<close> lists with the time
  badge and that is not blacklisted is asked for, in order, and a join is sent for every room that
  \<open>checkLotteryRoomList\<close> returns, in order, whichever calls are rejected.\<close>

lemma lottery_page_sends:
  assumes "getLiveRoom n (trace s @ [Delay 100]) p a page = Resp code (Data d) m"
    and "draws_defined n" and "patterns_compile cfg"
  shows "\<exists>rooms evs.
     fst (checkLotteryRoomList cfg n a p page s) = Inr rooms \<and>
     fst (bind_io (checkLotteryRoomList cfg n a p page) (doLotteryArea_rooms n) s) = Inr () \<and>
     trace (snd (bind_io (checkLotteryRoomList cfg n a p page) (doLotteryArea_rooms n) s))
       = trace s @ Delay 100 # GetLiveRoom p a page # evs \<and>
     filter is_check evs =
       map (\<lambda>room. CheckLottery (roomid room))
         (filter (\<lambda>room. LiveRoomList.uid room \<notin> set (LOTTERY_UP_BLACKLIST cfg)) (badge_rooms lottery d)) \<and>
     filter is_join evs = map lottery_join rooms"
proof -
  define s0 where "s0 = s\<lparr>trace := trace s @ [Delay 100, GetLiveRoom p a page],
        logs := logs s @ (if code \<noteq> 0 then [RoomListFailed code m] else [])\<rparr>"
  have g: "getLotteryRoomList n a p page lottery s = (Inr (badge_rooms lottery d), s0)"
    using getLotteryRoomList_resolved [OF assms(1)] by (simp add: s0_def)
  have "issues is_check (checkLotteryRoomList_rooms cfg n (badge_rooms lottery d))
          (map (\<lambda>room. CheckLottery (roomid room))
             (filter (\<lambda>room. LiveRoomList.uid room \<notin> set (LOTTERY_UP_BLACKLIST cfg)) (badge_rooms lottery d)))"
    using checkLotteryRoomList_rooms_issues [of n cfg is_check "badge_rooms lottery d"] assms(2,3)
    by (simp add: filter_check_if concat_map_if)
  then obtain rooms e1 where
    1: "fst (checkLotteryRoomList_rooms cfg n (badge_rooms lottery d) s0) = Inr rooms"
    and 2: "trace (snd (checkLotteryRoomList_rooms cfg n (badge_rooms lottery d) s0)) = trace s0 @ e1"
    and 3: "filter is_check e1 = map (\<lambda>room. CheckLottery (roomid room))
             (filter (\<lambda>room. LiveRoomList.uid room \<notin> set (LOTTERY_UP_BLACKLIST cfg)) (badge_rooms lottery d))"
    unfolding issues_def by blast
  have "issues is_join (checkLotteryRoomList_rooms cfg n (badge_rooms lottery d)) []"
    using checkLotteryRoomList_rooms_issues [of n cfg is_join "badge_rooms lottery d"] assms(2,3)
    by (simp add: filter_check_if concat_map_nil)
  then obtain e1' where
    "trace (snd (checkLotteryRoomList_rooms cfg n (badge_rooms lottery d) s0)) = trace s0 @ e1'"
    and "filter is_join e1' = []"
    unfolding issues_def by blast
  then have 4: "filter is_join e1 = []" using 2 by simp
  define s1 where "s1 = snd (checkLotteryRoomList_rooms cfg n (badge_rooms lottery d) s0)"
  have l: "checkLotteryRoomList cfg n a p page s = (Inr rooms, s1)"
    using 1 by (simp add: checkLotteryRoomList_def bind_io_def g s1_def prod_eq_iff)
  have eq: "bind_io (checkLotteryRoomList cfg n a p page) (doLotteryArea_rooms n) s
      = doLotteryArea_rooms n rooms s1"
    by (simp add: bind_io_def l)
  have r: "fst (doLotteryArea_rooms n rooms s1) = Inr ()"
    using doLotteryArea_rooms_no_throw [of n rooms] by (simp add: no_throw_def)
  have t: "trace (snd (doLotteryArea_rooms n rooms s1))
      = trace s @ Delay 100 # GetLiveRoom p a page #
          (e1 @ concat (map (\<lambda>lot. [lottery_join lot, Delay 300]) rooms))"
    using 2 by (simp add: doLotteryArea_rooms_trace s1_def s0_def)
  have "filter is_check (concat (map (\<lambda>lot. [lottery_join lot, Delay 300]) rooms)) = []"
    by (rule filter_join_loop) (simp_all add: is_join_not_check)
  then show ?thesis
    unfolding eq
    using l r t 3 4
    by (intro exI [of _ rooms] exI [of _ "e1 @ concat (map (\<lambda>lot. [lottery_join lot, Delay 300]) rooms)"])
      (simp add: filter_join_lottery_loop)
qed

text \<open>The fetches of a lottery run, when every fetch of a page resolves with a payload, whatever
  the pages hold.\<close>

lemma lottery_page_fetch:
  assumes "pages_resolve n" and "draws_defined n" and "patterns_compile cfg"
  shows "issues is_fetch (bind_io (checkLotteryRoomList cfg n a p page) (doLotteryArea_rooms n))
           [GetLiveRoom p a page]"
proof -
  have f: "issues is_fetch (getLotteryRoomList n a p page lottery) [GetLiveRoom p a page]"
    unfolding issues_def
  proof
    fix s :: state
    obtain code d m where "getLiveRoom n (trace s @ [Delay 100]) p a page = Resp code (Data d) m"
      using assms(1) unfolding pages_resolve_def by blast
    then show "\<exists>x evs. fst (getLotteryRoomList n a p page lottery s) = Inr x \<and>
        trace (snd (getLotteryRoomList n a p page lottery s)) = trace s @ evs \<and>
        filter is_fetch evs = [GetLiveRoom p a page]"
      by (simp add: getLotteryRoomList_resolved)
  qed
  have c: "issues is_fetch (checkLotteryRoomList_rooms cfg n rooms) []" for rooms
    using checkLotteryRoomList_rooms_issues [of n cfg is_fetch rooms] assms(2,3)
    by (simp add: filter_check_if concat_map_nil)
  have j: "issues is_fetch (doLotteryArea_rooms n rooms) []" for rooms
    by (rule doLotteryArea_rooms_issues) (simp_all add: is_join_not_fetch)
  show ?thesis
    unfolding checkLotteryRoomList_def
    by (intro issues_bind_right f c j)
qed

lemma liveLotteryService_areas_fetch:
  assumes "pages_resolve n" and "draws_defined n" and "patterns_compile cfg"
  shows "issues is_fetch (liveLotteryService_areas cfg n areaList)
           (page_fetches areaList (LOTTERY_PAGE_NUM cfg))"
proof -
  have "issues is_fetch (liveLotteryService_areas cfg n areaList)
     (concat (map (\<lambda>areas. concat (map (\<lambda>area. concat (map (\<lambda>page.
        [GetLiveRoom (parentId area) (areaId area) page])
        (pages_of (LOTTERY_PAGE_NUM cfg)))) areas)) areaList))"
    unfolding liveLotteryService_areas_def doLotteryArea_def Let_def pages_of_def
    by (intro issues_for_of lottery_page_fetch assms)
  then show ?thesis by (simp add: page_fetches_def)
qed

lemma liveLotteryService_fetches:
  assumes "getArea n (trace s) = Resp code (Data ad) m" and "pages_resolve n"
    and "draws_defined n" and "patterns_compile cfg"
  shows "\<exists>evs.
     fst (liveLotteryService cfg n s) = Inr (Some (nextRef s)) \<and>
     trace (snd (liveLotteryService cfg n s)) = trace s @ GetArea # evs \<and>
     filter is_fetch evs = page_fetches (areas_of ad) (LOTTERY_PAGE_NUM cfg)"
proof -
  have a: "getArea n (trace (snd (reset_newFollowUp s))) = Resp code (Data ad) m"
    using assms(1) by simp
  have "issues is_fetch (liveLotteryService_areas cfg n (areas_of ad))
     (page_fetches (areas_of ad) (LOTTERY_PAGE_NUM cfg))"
    by (rule liveLotteryService_areas_fetch) (rule assms)+
  from service_issues [where loop = "liveLotteryService_areas cfg n", OF a this] obtain x evs where
    1: "fst (liveLotteryService cfg n s) = Inr x"
    "trace (snd (liveLotteryService cfg n s)) = trace s @ GetArea # evs"
    "filter is_fetch evs = page_fetches (areas_of ad) (LOTTERY_PAGE_NUM cfg)"
    unfolding liveLotteryService_after_reset by auto
  moreover have "x = Some (nextRef s)" using 1(1) by (rule liveLotteryService_result)
  ultimately show ?thesis by blast
qed

section \<open>Example inputs\<close>

text \<open>A pattern without metacharacters matches where it occurs in the name.\<close>

fun occurs_in :: "jsstring \<Rightarrow> jsstring \<Rightarrow> bool" where
  "occurs_in s pat \<longleftrightarrow>
     take (length pat) s = pat \<or> (case s of [] \<Rightarrow> False | c # cs \<Rightarrow> occurs_in cs pat)"

text \<open>An engine for such patterns, in which the pattern \<open>(\<close> does not compile.\<close>

definition ex_match :: "jsstring \<Rightarrow> jsstring \<Rightarrow> bool option" where
  "ex_match name pat = (if pat = [0x28] then None else Some (occurs_in name pat))"

definition ex_state :: state where
  "ex_state = \<lparr>trace = [], logs = [], heap = (\<lambda>a. []), nextRef = 0, newFollowUp = None\<rparr>"

definition ex_config :: TaskConfig where
  "ex_config = \<lparr>LOTTERY_UP_BLACKLIST = [], LOTTERY_EXCLUDE = [[0x6D4B, 0x8BD5]],
     LOTTERY_INCLUDE = [[0x6D4B, 0x8BD5, 0x5956]], LOTTERY_PAGE_NUM = Some 1, userLevel = 15,
     re_match = ex_match\<rparr>"

definition ex_areas :: AreaData where
  "ex_areas = \<lparr>data' = [\<lparr>AreaGroup.list' = [\<lparr>AreaEntry.id' = [0x31], parent_id = [0x32]\<rparr>]\<rparr>]\<rparr>"

text \<open>A remote service with one sub-area whose answers do not depend on the history: the
  rooms of each page, and one answer for each kind of request.\<close>

definition ex_net ::
  "(int \<Rightarrow> LiveRoomList list) \<Rightarrow> LiveCheckLotteryDto response \<Rightarrow> unit response \<Rightarrow>
   RedPacketData response \<Rightarrow> unit response \<Rightarrow> net" where
  "ex_net rooms chk jn rchk rjn =
     \<lparr>getArea = (\<lambda>h. Resp 0 (Data ex_areas) []),
      getLiveRoom = (\<lambda>h p a page. Resp 0 (Data \<lparr>list' = rooms page\<rparr>) []),
      checkLottery = (\<lambda>h r. chk),
      joinLottery = (\<lambda>h i g k. jn),
      checkRedPacket = (\<lambda>h r. rchk),
      joinRedPacket = (\<lambda>h r l u. rjn)\<rparr>"

definition ex_room :: "PendentID \<Rightarrow> LiveRoomList" where
  "ex_room b = \<lparr>roomid = 5, LiveRoomList.uid = 7, LiveRoomList.uname = [0x55], pendant_info = [''2'' \<mapsto> \<lparr>pendent_id = b\<rparr>]\<rparr>"

definition ex_other :: "PendentID \<Rightarrow> LiveRoomList" where
  "ex_other b = \<lparr>roomid = 6, LiveRoomList.uid = 8, LiveRoomList.uname = [0x56], pendant_info = [''2'' \<mapsto> \<lparr>pendent_id = b\<rparr>]\<rparr>"

definition ex_draw :: "RequireType \<Rightarrow> jsstring \<Rightarrow> LiveCheckLotteryDto" where
  "ex_draw rt txt = \<lparr>id' = 1, gift_id = 2, gift_num = 3, award_name = [0x6D4B, 0x8BD5, 0x5956],
     status = Enabled, gift_price = 0, require_type = rt, require_value = 10, require_text = txt\<rparr>"

definition ex_lottery :: "RequireType \<Rightarrow> jsstring \<Rightarrow> CheckedLottery" where
  "ex_lottery rt txt = LiveCheckLotteryDto.extend (ex_draw rt txt) (CheckedLottery.fields 7 [0x55])"

definition ex_packet :: "int \<Rightarrow> int \<Rightarrow> RedPacketData" where
  "ex_packet l st = \<lparr>popularity_red_pocket = Some [\<lparr>RedPocket.lot_id = l, lot_status = st\<rparr>]\<rparr>"

lemmas ex_defs = ex_state_def ex_config_def ex_areas_def ex_net_def ex_room_def ex_other_def
  ex_draw_def ex_lottery_def ex_packet_def ex_match_def
  LiveCheckLotteryDto.extend_def CheckedLottery.fields_def

text \<open>One room on every page, with both kinds of draw open and every join accepted.\<close>

definition ex_net_open :: "PendentID \<Rightarrow> net" where
  "ex_net_open b = ex_net (\<lambda>p. [ex_room b])
     (Resp 0 (Data (ex_draw Follow (follow_text [0x41] [0x42] [0x43]))) []) (Resp 0 (Data ()) [])
     (Resp 0 (Data (ex_packet 9 1)) []) (Resp 0 (Data ()) [])"

text \<open>One red-packet room on every page, with the given \<open>lot_id\<close> and status in the answer to
  its check, and every join accepted.\<close>

definition ex_net_packet :: "int \<Rightarrow> int \<Rightarrow> net" where
  "ex_net_packet l st = ex_net (\<lambda>p. [ex_room RedPacket]) (Throws TypeError) (Throws TypeError)
     (Resp 0 (Data (ex_packet l st)) []) (Resp 0 (Data ()) [])"

text \<open>Three rooms on every page: a red-packet room, a lottery room and another red-packet room;
  every red-packet check finds an open entry and every join is accepted.\<close>

definition ex_page :: RoomPageData where
  "ex_page = \<lparr>list' = [ex_room RedPacket, ex_room Time, ex_other RedPacket]\<rparr>"

definition ex_net_pair :: net where
  "ex_net_pair = ex_net (\<lambda>p. RoomPageData.list' ex_page) (Throws TypeError) (Throws TypeError)
     (Resp 0 (Data (ex_packet 9 1)) []) (Resp 0 (Data ()) [])"

text \<open>Two lottery rooms on every page; the first check of a run is rejected, the later ones
  find a draw without requirement, and every join is rejected.\<close>

definition ex_rooms :: RoomPageData where
  "ex_rooms = \<lparr>list' = [ex_room Time, ex_other Time]\<rparr>"

definition ex_net_flaky :: net where
  "ex_net_flaky =
     (ex_net (\<lambda>p. RoomPageData.list' ex_rooms) (Resp 0 (Data (ex_draw NoRequire [])) [])
        (Throws (NetError [0x65])) (Throws TypeError) (Throws TypeError))
     \<lparr>checkLottery := \<lambda>h r.
        if h = [GetArea, Delay 100, GetLiveRoom [0x32] [0x31] 1] then Throws (NetError [0x65])
        else Resp 0 (Data (ex_draw NoRequire [])) []\<rparr>"

text \<open>The same two rooms, with every check answered by code 0 and no \<open>data\<close>.\<close>

definition ex_net_bare :: net where
  "ex_net_bare =
     ex_net (\<lambda>p. RoomPageData.list' ex_rooms) (Resp 0 Undefined []) (Resp 0 (Data ()) [])
       (Throws TypeError) (Throws TypeError)"

text \<open>The same two rooms, with every check answered by an open draw.\<close>

definition ex_net_draws :: net where
  "ex_net_draws =
     ex_net (\<lambda>p. RoomPageData.list' ex_rooms) (Resp 0 (Data (ex_draw NoRequire [])) [])
       (Resp 0 (Data ()) []) (Throws TypeError) (Throws TypeError)"

text \<open>A service whose category endpoint answers with code -400 and no payload.\<close>

definition ex_net_refused :: net where
  "ex_net_refused =
     (ex_net (\<lambda>p. []) (Throws TypeError) (Throws TypeError) (Throws TypeError) (Throws TypeError))
     \<lparr>getArea := \<lambda>h. Resp (- 400) Null [0x65]\<rparr>"

section \<open>The claims of the specification\<close>

text \<open>
  C1. The list a pipeline returns holds no streamer twice. The lottery pipeline keeps this
  (\<open>liveLotteryService_distinct\<close>); the red-packet pipeline pushes without looking: with the
  same room listed on two pages and both joins accepted, the list it returns holds the
  streamer's id twice.
\<close>

theorem liveRedPackService_duplicates:
  "fst (liveRedPackService (ex_config\<lparr>LOTTERY_PAGE_NUM := Some 2\<rparr>) (ex_net_open RedPacket) ex_state)
     = Inr (Some 0) \<and>
   heap (snd (liveRedPackService (ex_config\<lparr>LOTTERY_PAGE_NUM := Some 2\<rparr>) (ex_net_open RedPacket) ex_state)) 0
     = [Num 7, Num 7] \<and>
   trace (snd (liveRedPackService (ex_config\<lparr>LOTTERY_PAGE_NUM := Some 2\<rparr>) (ex_net_open RedPacket) ex_state))
     = [GetArea,
        Delay 100, GetLiveRoom [0x32] [0x31] 1, CheckRedPacket 5, Delay 100, JoinRedPacket 5 9 7, Delay 200,
        Delay 100, GetLiveRoom [0x32] [0x31] 2, CheckRedPacket 5, Delay 100, JoinRedPacket 5 9 7, Delay 200]"
  by code_simp

text \<open>
  C2. After a successful lottery join whose draw has requirement type "follow" and the
  requirement text \<open>'<marker> A + B + C'\<close>, starting from an empty accumulator, the
  accumulator holds the streamer's id, then the name B, then the name C: the marker is
  stripped, the rest is split on \<open>+\<close> with the white space around it, and the first piece
  is dropped.
\<close>

theorem doLottery_follow_text:
  assumes "joinLottery n (trace s) (LiveCheckLotteryDto.id' lot) (gift_id lot) (gift_num lot) = Resp 0 d msg"
    and "require_type lot = Follow"
    and "require_text lot = follow_text A B C"
    and "0x2B \<notin> set A" and "is_name B" and "is_name C" and "B \<noteq> C"
    and "newFollowUp s = Some a"
    and "heap s a = []"
  shows "fst (doLottery n lot s) = Inr () \<and>
         heap (snd (doLottery n lot s)) a = [Num (CheckedLottery.uid lot), Str B, Str C]"
  using assms(1,2,3,7,8,9)
  by (simp add: doLottery_def io_defs getRequireUp_follow_text [OF assms(4,5,6)]
      pushIfNotExist_def array_push_def)

theorem doLottery_follow_text_witness:
  "joinLottery (ex_net (\<lambda>p. []) (Throws TypeError) (Resp 0 (Data ()) []) (Throws TypeError) (Throws TypeError))
     (trace (snd (reset_newFollowUp ex_state))) 1 2 3 = Resp 0 (Data ()) [] \<and>
   require_type (ex_lottery Follow (follow_text [0x41] [0x42] [0x43])) = Follow \<and>
   require_text (ex_lottery Follow (follow_text [0x41] [0x42] [0x43])) =
     [0x5173, 0x6CE8, 0x4E3B, 0x64AD, 0x20, 0x41, 0x20, 0x2B, 0x20, 0x42, 0x20, 0x2B, 0x20, 0x43] \<and>
   is_name [0x42] \<and> is_name [0x43] \<and>
   newFollowUp (snd (reset_newFollowUp ex_state)) = Some 0 \<and>
   heap (snd (reset_newFollowUp ex_state)) 0 = [] \<and>
   heap (snd (doLottery (ex_net (\<lambda>p. []) (Throws TypeError) (Resp 0 (Data ()) []) (Throws TypeError) (Throws TypeError))
     (ex_lottery Follow (follow_text [0x41] [0x42] [0x43])) (snd (reset_newFollowUp ex_state)))) 0
     = [Num 7, Str [0x42], Str [0x43]]"
  using doLottery_follow_text [of
      "ex_net (\<lambda>p. []) (Throws TypeError) (Resp 0 (Data ()) []) (Throws TypeError) (Throws TypeError)"
      "snd (reset_newFollowUp ex_state)" "ex_lottery Follow (follow_text [0x41] [0x42] [0x43])"
      "Data ()" "[]" "[0x41]" "[0x42]" "[0x43]" 0]
  by (simp add: ex_defs reset_newFollowUp_def is_name_def is_space_def follow_text_def follow_marker_def)




text \<open>
  C4, as stated: every join request comes at once after its delay. It fails on the first
  join of a page, which follows the 100 ms delay of the room check.
\<close>

theorem join_preceded_by_delay_counterexample:
  "trace (snd (liveLotteryService ex_config (ex_net_open Time) ex_state))
     = [GetArea, Delay 100, GetLiveRoom [0x32] [0x31] 1, CheckLottery 5, Delay 100,
        JoinLottery 1 2 3, Delay 300] \<and>
   \<not> paced_before None (trace (snd (liveLotteryService ex_config (ex_net_open Time) ex_state))) \<and>
   trace (snd (liveRedPackService ex_config (ex_net_open RedPacket) ex_state))
     = [GetArea, Delay 100, GetLiveRoom [0x32] [0x31] 1, CheckRedPacket 5, Delay 100,
        JoinRedPacket 5 9 7, Delay 200] \<and>
   \<not> paced_before None (trace (snd (liveRedPackService ex_config (ex_net_open RedPacket) ex_state)))"
  by code_simp

text \<open>
  C4, amended. Among the outbound operations of a run of either pipeline, every lottery
  join request is followed at once by a delay of 300 ms and every red-packet join request
  by a delay of 200 ms.
\<close>

theorem join_followed_by_delay:
  assumes "run = liveLotteryService cfg n \<or> run = liveRedPackService cfg n"
  shows "\<exists>tr. trace (snd (run s)) = trace s @ tr \<and>
           (\<forall>i ms. i < length tr \<and> pace_of (tr ! i) = Some ms \<longrightarrow>
              Suc i < length tr \<and> tr ! Suc i = Delay ms)"
proof -
  have "paced_since (trace s) (snd (run s))"
    using assms paced_since_liveLotteryService paced_since_liveRedPackService by blast
  then obtain tr where tr: "trace (snd (run s)) = trace s @ tr" "paced_after tr"
    by (auto simp: paced_since_def)
  then show ?thesis using paced_after_nth by blast
qed

theorem join_followed_by_delay_witness:
  "trace (snd (liveLotteryService ex_config (ex_net_open Time) ex_state)) ! 5 = JoinLottery 1 2 3 \<and>
   trace (snd (liveLotteryService ex_config (ex_net_open Time) ex_state)) ! Suc 5 = Delay 300"
proof -
  let ?t = "trace (snd (liveLotteryService ex_config (ex_net_open Time) ex_state))"
  have t: "?t = [GetArea, Delay 100, GetLiveRoom [0x32] [0x31] 1, CheckLottery 5, Delay 100,
        JoinLottery 1 2 3, Delay 300]"
    by code_simp
  obtain tr where tr: "?t = trace ex_state @ tr"
    and p: "\<forall>i ms. i < length tr \<and> pace_of (tr ! i) = Some ms \<longrightarrow> Suc i < length tr \<and> tr ! Suc i = Delay ms"
    using join_followed_by_delay [of "liveLotteryService ex_config (ex_net_open Time)" ex_config
        "ex_net_open Time" ex_state] by auto
  have tr': "tr = ?t" using tr by (simp add: ex_state_def)
  have 5: "?t ! 5 = JoinLottery 1 2 3" by (simp add: t)
  have "5 < length ?t \<and> pace_of (?t ! 5) = Some 300" by (simp add: t)
  then have "?t ! Suc 5 = Delay 300" using p tr' by metis
  then show ?thesis using 5 by simp
qed

text \<open>
  C5, as stated: whenever the category endpoint answers with a code other than 0, \<open>getLiveArea\<close>
  logs and returns what the answer holds, and does not abort the pipeline. It fails for an
  answer that carries no payload: reading \<open>data.data\<close> throws inside the \<open>try\<close>, the \<open>catch\<close> logs
  and throws again, and the run of either pipeline ends with that exception after the one
  request.
\<close>

theorem getLiveArea_aborts_counterexample:
  "getArea ex_net_refused (trace ex_state) = Resp (- 400) Null [0x65] \<and>
   getLiveArea ex_net_refused ex_state =
     (Inl TypeError,
      ex_state\<lparr>trace := [GetArea], logs := [AreaFailed (- 400) [0x65], AreaException TypeError]\<rparr>) \<and>
   fst (liveLotteryService ex_config ex_net_refused ex_state) = Inl TypeError \<and>
   trace (snd (liveLotteryService ex_config ex_net_refused ex_state)) = [GetArea] \<and>
   fst (liveRedPackService ex_config ex_net_refused ex_state) = Inl TypeError \<and>
   trace (snd (liveRedPackService ex_config ex_net_refused ex_state)) = [GetArea]"
proof -
  have "getArea ex_net_refused (trace ex_state) = Resp (- 400) Null [0x65]"
    by (simp add: ex_net_refused_def ex_defs)
  moreover have "getLiveArea ex_net_refused ex_state =
     (Inl TypeError,
      ex_state\<lparr>trace := [GetArea], logs := [AreaFailed (- 400) [0x65], AreaException TypeError]\<rparr>)"
    by (simp add: getLiveArea_def io_defs ex_net_refused_def ex_defs)
  moreover have "fst (liveLotteryService ex_config ex_net_refused ex_state) = Inl TypeError"
    "trace (snd (liveLotteryService ex_config ex_net_refused ex_state)) = [GetArea]"
    "fst (liveRedPackService ex_config ex_net_refused ex_state) = Inl TypeError"
    "trace (snd (liveRedPackService ex_config ex_net_refused ex_state)) = [GetArea]"
    by code_simp+
  ultimately show ?thesis by simp
qed

text \<open>
  C5, amended. When the category endpoint answers with a code other than 0 and its answer
  carries the categories, \<open>getLiveArea\<close> writes one line to the log and returns the transformed
  categories of the answer; it does not throw for any such answer.
\<close>

theorem getLiveArea_soft_failure:
  assumes "getArea n (trace s) = Resp code (Data d) msg" and "code \<noteq> 0"
  shows "getLiveArea n s =
    (Inr (map (\<lambda>item. map (\<lambda>area. \<lparr>areaId = AreaEntry.id' area, parentId = parent_id area\<rparr>)
                 (AreaGroup.list' item)) (data' d)),
     s\<lparr>trace := trace s @ [GetArea], logs := logs s @ [AreaFailed code msg]\<rparr>)"
  using assms
  by (simp add: getLiveArea_def io_defs comp_def)

theorem getLiveArea_soft_failure_witness:
  "getArea (ex_net_refused\<lparr>getArea := \<lambda>h. Resp (- 400) (Data ex_areas) [0x65]\<rparr>) (trace ex_state)
     = Resp (- 400) (Data ex_areas) [0x65] \<and>
   (- 400 :: int) \<noteq> 0 \<and>
   getLiveArea (ex_net_refused\<lparr>getArea := \<lambda>h. Resp (- 400) (Data ex_areas) [0x65]\<rparr>) ex_state =
     (Inr [[\<lparr>areaId = [0x31], parentId = [0x32]\<rparr>]],
      ex_state\<lparr>trace := [GetArea], logs := [AreaFailed (- 400) [0x65]]\<rparr>)"
  using getLiveArea_soft_failure [of
      "ex_net_refused\<lparr>getArea := \<lambda>h. Resp (- 400) (Data ex_areas) [0x65]\<rparr>"
      ex_state "- 400" ex_areas "[0x65]"]
  by (simp add: ex_defs)




text \<open>
  C7. A draw of a room that is not blacklisted, that is not skipped by the patterns, whose
  status is enabled and whose gift price is not positive, with requirement type "level" and
  required value v, is accepted exactly when the configured user level is at least v.
\<close>

theorem checkLotteryRoom_level:
  assumes "LiveRoomList.uid room \<notin> set (LOTTERY_UP_BLACKLIST cfg)"
    and "checkLottery n (trace s) (roomid room) = Resp 0 (Data d) msg"
    and "some_match (re_match cfg (award_name d)) (LOTTERY_EXCLUDE cfg) = Inr isExclude"
    and "some_match (re_match cfg (award_name d)) (LOTTERY_INCLUDE cfg) = Inr isInclude"
    and "isInclude \<or> \<not> isExclude"
    and "status d = Enabled"
    and "gift_price d \<le> 0"
    and "require_type d = Level"
  shows "fst (checkLotteryRoom cfg n room s) =
         Inr (if require_value d \<le> userLevel cfg then Some d else None)"
  using assms
  by (auto simp: checkLotteryRoom_def io_defs Let_def)

theorem checkLotteryRoom_level_witness:
  "LiveRoomList.uid (ex_room Time) \<notin> set (LOTTERY_UP_BLACKLIST ex_config) \<and>
   some_match (ex_match (award_name (ex_draw Level []))) (LOTTERY_EXCLUDE ex_config) = Inr True \<and>
   some_match (ex_match (award_name (ex_draw Level []))) (LOTTERY_INCLUDE ex_config) = Inr True \<and>
   status (ex_draw Level []) = Enabled \<and> gift_price (ex_draw Level []) \<le> 0 \<and>
   require_type (ex_draw Level []) = Level \<and> require_value (ex_draw Level []) = 10 \<and>
   fst (checkLotteryRoom (ex_config\<lparr>userLevel := 10\<rparr>)
         (ex_net (\<lambda>p. []) (Resp 0 (Data (ex_draw Level [])) []) (Throws TypeError) (Throws TypeError) (Throws TypeError))
         (ex_room Time) ex_state) = Inr (Some (ex_draw Level [])) \<and>
   fst (checkLotteryRoom (ex_config\<lparr>userLevel := 9\<rparr>)
         (ex_net (\<lambda>p. []) (Resp 0 (Data (ex_draw Level [])) []) (Throws TypeError) (Throws TypeError) (Throws TypeError))
         (ex_room Time) ex_state) = Inr None"
  using checkLotteryRoom_level [of "ex_room Time" "ex_config\<lparr>userLevel := 10\<rparr>"
      "ex_net (\<lambda>p. []) (Resp 0 (Data (ex_draw Level [])) []) (Throws TypeError) (Throws TypeError) (Throws TypeError)"
      ex_state "ex_draw Level []" "[]" True True]
    checkLotteryRoom_level [of "ex_room Time" "ex_config\<lparr>userLevel := 9\<rparr>"
      "ex_net (\<lambda>p. []) (Resp 0 (Data (ex_draw Level [])) []) (Throws TypeError) (Throws TypeError) (Throws TypeError)"
      ex_state "ex_draw Level []" "[]" True True]
  by (simp add: ex_defs)



text \<open>
  C9. A list that a run of either pipeline returned is not changed by the runs that come
  after it, however many they are and whichever pipeline they run: every run binds
  \<open>newFollowUp\<close> to another, new array, which starts empty, and writes to no array that was
  there before, so the earlier list keeps its entries.
\<close>

theorem returned_list_never_mutated:
  "(fst (run_of r0 s) = Inr (Some a) \<longrightarrow>
      heap (runs rs (snd (run_of r0 s))) a = heap (snd (run_of r0 s)) a \<and>
      a < nextRef (runs rs (snd (run_of r0 s))) \<and>
      newFollowUp (snd (run_of r (runs rs (snd (run_of r0 s))))) = Some (nextRef (runs rs (snd (run_of r0 s)))) \<and>
      heap (snd (reset_newFollowUp (runs rs (snd (run_of r0 s))))) (nextRef (runs rs (snd (run_of r0 s)))) = []) \<and>
   (b < nextRef s \<longrightarrow> heap (snd (run_of r s)) b = heap s b \<and> heap (runs rs s) b = heap s b)"
proof (intro conjI impI)
  assume r: "fst (run_of r0 s) = Inr (Some a)"
  have "a = nextRef s" using run_of_result [OF r] by simp
  then have lt: "a < nextRef (snd (run_of r0 s))" by (simp add: run_of_nextRef)
  from runs_heap [OF lt, of rs]
  show "heap (runs rs (snd (run_of r0 s))) a = heap (snd (run_of r0 s)) a"
    and "a < nextRef (runs rs (snd (run_of r0 s)))"
    using lt by simp_all
  show "newFollowUp (snd (run_of r (runs rs (snd (run_of r0 s))))) = Some (nextRef (runs rs (snd (run_of r0 s))))"
    by (rule run_of_accumulator)
  show "heap (snd (reset_newFollowUp (runs rs (snd (run_of r0 s))))) (nextRef (runs rs (snd (run_of r0 s)))) = []"
    by (simp add: reset_newFollowUp_def)
next
  assume "b < nextRef s"
  then show "heap (snd (run_of r s)) b = heap s b" and "heap (runs rs s) b = heap s b"
    by (simp_all add: run_of_heap runs_heap)
qed

theorem returned_list_never_mutated_witness:
  "fst (run_of (LotteryRun ex_config (ex_net_open Time)) ex_state) = Inr (Some 0) \<and>
   heap (snd (run_of (LotteryRun ex_config (ex_net_open Time)) ex_state)) 0 = [Num 7, Str [0x42], Str [0x43]] \<and>
   heap (runs [RedPackRun ex_config (ex_net_open RedPacket), LotteryRun ex_config (ex_net_open Time)]
           (snd (run_of (LotteryRun ex_config (ex_net_open Time)) ex_state))) 0
     = [Num 7, Str [0x42], Str [0x43]] \<and>
   heap (runs [RedPackRun ex_config (ex_net_open RedPacket), LotteryRun ex_config (ex_net_open Time)]
           (snd (run_of (LotteryRun ex_config (ex_net_open Time)) ex_state))) 1 = [Num 7] \<and>
   newFollowUp (runs [RedPackRun ex_config (ex_net_open RedPacket), LotteryRun ex_config (ex_net_open Time)]
           (snd (run_of (LotteryRun ex_config (ex_net_open Time)) ex_state))) = Some 2 \<and>
   0 < nextRef (snd (run_of (LotteryRun ex_config (ex_net_open Time)) ex_state)) \<and>
   heap (snd (run_of (RedPackRun ex_config ex_net_refused)
           (snd (run_of (LotteryRun ex_config (ex_net_open Time)) ex_state)))) 0
     = [Num 7, Str [0x42], Str [0x43]]"
proof -
  let ?s1 = "snd (run_of (LotteryRun ex_config (ex_net_open Time)) ex_state)"
  let ?rs = "[RedPackRun ex_config (ex_net_open RedPacket), LotteryRun ex_config (ex_net_open Time)]"
  have f: "fst (run_of (LotteryRun ex_config (ex_net_open Time)) ex_state) = Inr (Some 0)"
    by code_simp
  have h: "heap ?s1 0 = [Num 7, Str [0x42], Str [0x43]]"
    by code_simp
  have 2: "heap (runs ?rs ?s1) 0 = heap ?s1 0"
    using returned_list_never_mutated [where ?r0.0 = "LotteryRun ex_config (ex_net_open Time)"
        and s = ex_state and a = 0 and rs = ?rs] f by blast
  have 3: "heap (runs ?rs ?s1) 1 = [Num 7]" "newFollowUp (runs ?rs ?s1) = Some 2"
    by code_simp+
  have n: "0 < nextRef ?s1"
    by code_simp
  have 4: "heap (snd (run_of (RedPackRun ex_config ex_net_refused) ?s1)) 0 = heap ?s1 0"
    using returned_list_never_mutated [where s = ?s1 and b = 0
        and r = "RedPackRun ex_config ex_net_refused"] n by blast
  show ?thesis using f h 2 3 n 4 by simp
qed

text \<open>
  C10. A room for which every check that finds a red-packet entry finds it with \<open>lot_id\<close> 0
  is not among the candidates of a page and is not joined in a run, whatever the status
  of the entry; no candidate has a \<open>lot_id\<close> of 0.
\<close>

theorem zero_lot_id_never_joined:
  assumes "\<forall>h q. first_entry (checkRedPacket n h r) = Some q \<longrightarrow> RedPocket.lot_id q = 0"
  shows "joins_of r (trace (snd (liveRedPackService cfg n s))) = joins_of r (trace s) \<and>
         (\<forall>cands. fst (getRedPacketRoom n a p page s') = Inr cands \<longrightarrow>
            (\<forall>c\<in>set cands. room_id c \<noteq> r \<and> lot_id c \<noteq> 0))"
proof
  show "joins_of r (trace (snd (liveRedPackService cfg n s))) = joins_of r (trace s)"
    using assms by (intro never_joined) blast
  show "\<forall>cands. fst (getRedPacketRoom n a p page s') = Inr cands \<longrightarrow>
            (\<forall>c\<in>set cands. room_id c \<noteq> r \<and> lot_id c \<noteq> 0)"
    using getRedPacketRoom_candidates [of n a p page s' _ r] assms by blast
qed

theorem zero_lot_id_never_joined_witness:
  "(\<forall>h. first_entry (checkRedPacket (ex_net_packet 0 0) h 5) = Some \<lparr>RedPocket.lot_id = 0, lot_status = 0\<rparr>) \<and>
   checks_of 5 (trace (snd (liveRedPackService ex_config (ex_net_packet 0 0) ex_state))) = 1 \<and>
   joins_of 5 (trace (snd (liveRedPackService ex_config (ex_net_packet 0 0) ex_state))) = 0 \<and>
   fst (getRedPacketRoom (ex_net_packet 0 0) [0x31] [0x32] 1 ex_state) = Inr []"
proof -
  have zero: "\<forall>h. first_entry (checkRedPacket (ex_net_packet 0 0) h 5) = Some \<lparr>RedPocket.lot_id = 0, lot_status = 0\<rparr>"
    by (simp add: ex_net_packet_def ex_defs)
  have checks: "checks_of 5 (trace (snd (liveRedPackService ex_config (ex_net_packet 0 0) ex_state))) = 1"
    by code_simp
  have cands: "fst (getRedPacketRoom (ex_net_packet 0 0) [0x31] [0x32] 1 ex_state) = Inr []"
    by code_simp
  have "joins_of 5 (trace (snd (liveRedPackService ex_config (ex_net_packet 0 0) ex_state))) = joins_of 5 (trace ex_state)"
    using zero_lot_id_never_joined [of "ex_net_packet 0 0" 5 ex_config ex_state "[0x31]" "[0x32]" 1 ex_state] zero
    by simp
  then show ?thesis using zero checks cands by (simp add: ex_state_def joins_of_def)
qed


end
